theory Spec2Isabelle
  imports Main
begin

section \<open>Python values used by \<open>rss_site_bridge/app.py\<close>\<close>

text \<open>
  A Python \<open>str\<close> is a \<open>string\<close>, one \<open>char\<close> per code point; the model covers text
  whose code points, and those of its case-folded form, are below 256. The character
  classes of \<open>str.strip\<close>, \<open>str.split\<close> and \<open>\s\<close> (one class), of \<open>str.splitlines\<close> and
  of \<open>\w\<close> are written out for that range. \<open>str.casefold\<close>, which does more than lower
  the case (it turns a sharp s into \<open>ss\<close>), is not written out: the functions that call
  it take it as a parameter.

  Exceptions are values. \<open>ValueError\<close> and \<open>RuntimeError\<close> stand for these classes and
  their subclasses (\<open>RecursionError\<close> is a \<open>RuntimeError\<close>), \<open>OtherError\<close> for an
  exception of any other class, such as the \<open>TimeoutError\<close> of a response that stops
  arriving while it is read; each carries its message.
\<close>

datatype error = ValueError string | RuntimeError string | OtherError string


definition is_space :: "char \<Rightarrow> bool" where
  "is_space c = (c \<in> set [CHR 0x09, CHR 0x0A, CHR 0x0B, CHR 0x0C, CHR 0x0D,
                            CHR 0x1C, CHR 0x1D, CHR 0x1E, CHR 0x1F, CHR '' '',
                            CHR 0x85, CHR 0xA0])"

definition is_linebreak :: "char \<Rightarrow> bool" where
  "is_linebreak c = (c \<in> set [CHR 0x0A, CHR 0x0B, CHR 0x0C, CHR 0x0D, CHR 0x1C, CHR 0x1D, CHR 0x1E,
                                CHR 0x85])"

definition is_word_char :: "char \<Rightarrow> bool" where
  "is_word_char c =
     (c \<in> set ''abcdefghijklmnopqrstuvwxyzABCDEFGHIJKLMNOPQRSTUVWXYZ0123456789_''
      \<or> c \<in> set [CHR 0xAA, CHR 0xB2, CHR 0xB3, CHR 0xB5, CHR 0xB9, CHR 0xBA, CHR 0xBC,
                   CHR 0xBD, CHR 0xBE]
      \<or> (0xC0 \<le> (of_char c :: nat) \<and> c \<noteq> CHR 0xD7 \<and> c \<noteq> CHR 0xF7))"

definition strip :: "string \<Rightarrow> string" where
  "strip s = rev (dropWhile is_space (rev (dropWhile is_space s)))"

text \<open>
  On text below code point 128 \<open>str.casefold\<close> lowers the letters A to Z and changes
  nothing else. A regular expression compiled with \<open>re.IGNORECASE\<close> matches each letter of
  its keywords \<open>AND\<close> and \<open>OR\<close> against that letter in either case and against no other
  character.
\<close>

definition is_ascii :: "char \<Rightarrow> bool" where
  "is_ascii c = ((of_char c :: nat) < 128)"

definition ascii_casefold_char :: "char \<Rightarrow> char" where
  "ascii_casefold_char c =
     (case map_of (zip ''ABCDEFGHIJKLMNOPQRSTUVWXYZ'' ''abcdefghijklmnopqrstuvwxyz'') c of
        Some l \<Rightarrow> l
      | None \<Rightarrow> c)"

definition ascii_casefold :: "string \<Rightarrow> string" where
  "ascii_casefold s = map ascii_casefold_char s"

fun startswith :: "string \<Rightarrow> string \<Rightarrow> bool" where
  "startswith s [] = True"
| "startswith [] (p # ps) = False"
| "startswith (c # cs) (p # ps) = (c = p \<and> startswith cs ps)"

definition endswith :: "string \<Rightarrow> string \<Rightarrow> bool" where
  "endswith s p = startswith (rev s) (rev p)"

text \<open>\<open>contains s t\<close> is Python's \<open>t in s\<close> on strings.\<close>

fun contains :: "string \<Rightarrow> string \<Rightarrow> bool" where
  "contains [] t = (t = [])"
| "contains (c # cs) t = (startswith (c # cs) t \<or> contains cs t)"

text \<open>\<open>str.splitlines()\<close>: \<open>\r\n\<close> is one boundary, and a final boundary opens no new line.\<close>

fun splitlines_from :: "string \<Rightarrow> string \<Rightarrow> string list" where
  "splitlines_from cur [] = (if cur = [] then [] else [cur])"
| "splitlines_from cur (c # cs) =
     (if c = CHR 0x0D \<and> startswith cs [CHR 0x0A] then cur # splitlines_from [] (tl cs)
      else if is_linebreak c then cur # splitlines_from [] cs
      else splitlines_from (cur @ [c]) cs)"

definition splitlines :: "string \<Rightarrow> string list" where
  "splitlines s = splitlines_from [] s"

text \<open>\<open>str.split()\<close> with no argument: the maximal runs of non-whitespace characters.\<close>

fun split_from :: "string \<Rightarrow> string \<Rightarrow> string list" where
  "split_from cur [] = (if cur = [] then [] else [cur])"
| "split_from cur (c # cs) =
     (if is_space c then (if cur = [] then [] else [cur]) @ split_from [] cs
      else split_from (cur @ [c]) cs)"

definition split :: "string \<Rightarrow> string list" where
  "split s = split_from [] s"

fun join :: "string \<Rightarrow> string list \<Rightarrow> string" where
  "join sep [] = []"
| "join sep [x] = x"
| "join sep (x # y # ys) = x @ sep @ join sep (y # ys)"

text \<open>\<open>xs[:k]\<close> for a Python int \<open>k\<close>: a negative bound counts from the end.\<close>

definition slice_to :: "'a list \<Rightarrow> int \<Rightarrow> 'a list" where
  "slice_to xs k = (if 0 \<le> k then take (nat k) xs else take (nat (int (length xs) + k)) xs)"

subsection \<open>\<open>fnmatch.fnmatchcase\<close>\<close>

text \<open>
  The standard library translates a shell pattern item by item: \<open>*\<close> matches any run of
  characters, \<open>?\<close> exactly one, \<open>[...]\<close> one character of a class when the bracket is
  closed (a \<open>]\<close> right after \<open>[\<close> or \<open>[!\<close> belongs to the class) and a literal \<open>[\<close>
  otherwise; every other character matches itself. Which characters a class text admits
  is left to the parameter \<open>B\<close>.
\<close>

datatype glob_item = Star | AnyChar | Literal char | Bracket string

definition bracket_end :: "string \<Rightarrow> (string \<times> string) option" where
  "bracket_end s =
     (let neg = startswith s ''!'';
          s1 = (if neg then tl s else s);
          lit = startswith s1 '']'';
          s2 = (if lit then tl s1 else s1);
          body = takeWhile (\<lambda>c. c \<noteq> CHR '']'') s2;
          rest = dropWhile (\<lambda>c. c \<noteq> CHR '']'') s2
      in if rest = [] then None
         else Some ((if neg then ''!'' else []) @ (if lit then '']'' else []) @ body, tl rest))"

function translate :: "string \<Rightarrow> glob_item list" where
  "translate [] = []"
| "translate (c # cs) =
     (if c = CHR ''*'' then Star # translate cs
      else if c = CHR ''?'' then AnyChar # translate cs
      else if c = CHR ''['' then
        (case bracket_end cs of
           None \<Rightarrow> Literal c # translate cs
         | Some (stuff, rest) \<Rightarrow> Bracket stuff # translate rest)
      else Literal c # translate cs)"
  by pat_completeness auto
termination
proof (relation "measure length")
  fix c cs x2 x y
  assume "bracket_end cs = Some x2" and "(x, y) = x2"
  then obtain s2 where y: "y = tl (dropWhile (\<lambda>c. c \<noteq> CHR '']'') s2)"
    and s2: "length s2 \<le> length cs"
    by (auto simp: bracket_end_def Let_def split: if_splits)
  have "length y \<le> length s2"
    unfolding y using length_dropWhile_le [of "\<lambda>c. c \<noteq> CHR '']''" s2] by simp
  with s2 show "(y, c # cs) \<in> measure length" by simp
qed auto

fun glob_match :: "(string \<Rightarrow> char \<Rightarrow> bool) \<Rightarrow> glob_item list \<Rightarrow> string \<Rightarrow> bool" where
  "glob_match B [] s = (s = [])"
| "glob_match B (Star # ps) [] = glob_match B ps []"
| "glob_match B (Star # ps) (c # cs) = (glob_match B ps (c # cs) \<or> glob_match B (Star # ps) cs)"
| "glob_match B (AnyChar # ps) [] = False"
| "glob_match B (AnyChar # ps) (c # cs) = glob_match B ps cs"
| "glob_match B (Literal x # ps) [] = False"
| "glob_match B (Literal x # ps) (c # cs) = (x = c \<and> glob_match B ps cs)"
| "glob_match B (Bracket stuff # ps) [] = False"
| "glob_match B (Bracket stuff # ps) (c # cs) = (B stuff c \<and> glob_match B ps cs)"

definition fnmatchcase :: "(string \<Rightarrow> char \<Rightarrow> bool) \<Rightarrow> string \<Rightarrow> string \<Rightarrow> bool" where
  "fnmatchcase B name pat = glob_match B (translate pat) name"

text \<open>The strings a list of pattern items denotes, stated without reference to the matcher.\<close>

fun glob_lang :: "(string \<Rightarrow> char \<Rightarrow> bool) \<Rightarrow> glob_item list \<Rightarrow> string set" where
  "glob_lang B [] = {[]}"
| "glob_lang B (Star # ps) = {u @ v | u v. v \<in> glob_lang B ps}"
| "glob_lang B (AnyChar # ps) = {c # v | c v. v \<in> glob_lang B ps}"
| "glob_lang B (Literal x # ps) = {x # v | v. v \<in> glob_lang B ps}"
| "glob_lang B (Bracket stuff # ps) = {c # v | c v. B stuff c \<and> v \<in> glob_lang B ps}"

text \<open>
  What a shell pattern means, read off the pattern text with no translation in between:
  \<open>*\<close> stands for any run of characters, the empty one included, \<open>?\<close> for exactly one
  character, a closed bracket for one character of its class, an unclosed \<open>[\<close> and every
  other character for itself.
\<close>

inductive shell_match :: "(string \<Rightarrow> char \<Rightarrow> bool) \<Rightarrow> string \<Rightarrow> string \<Rightarrow> bool"
  for B :: "string \<Rightarrow> char \<Rightarrow> bool" where
  sm_end: "shell_match B [] []"
| sm_star: "shell_match B pat s \<Longrightarrow> shell_match B (CHR ''*'' # pat) (run @ s)"
| sm_any: "shell_match B pat s \<Longrightarrow> shell_match B (CHR ''?'' # pat) (c # s)"
| sm_class: "bracket_end pat = Some (stuff, rest) \<Longrightarrow> B stuff c \<Longrightarrow> shell_match B rest s
     \<Longrightarrow> shell_match B (CHR ''['' # pat) (c # s)"
| sm_open: "bracket_end pat = None \<Longrightarrow> shell_match B pat s
     \<Longrightarrow> shell_match B (CHR ''['' # pat) (CHR ''['' # s)"
| sm_char: "c \<noteq> CHR ''*'' \<Longrightarrow> c \<noteq> CHR ''?'' \<Longrightarrow> c \<noteq> CHR ''['' \<Longrightarrow> shell_match B pat s
     \<Longrightarrow> shell_match B (c # pat) (c # s)"

section \<open>Data classes\<close>

record feed_request =
  feed_title :: string
  source_url :: string
  item_selector :: string
  title_selector :: string
  link_selector :: string
  summary_selector :: string
  max_items :: int
  refresh_interval_minutes :: int
  fetch_mode :: string
  filter_rules :: string
  exclude_filter_rules :: string

text \<open>A \<open>datetime\<close> is its number of microseconds since the epoch.\<close>

record feed_entry =
  title :: string
  link :: string
  summary :: string
  published_at :: int

section \<open>Filter expressions\<close>

datatype token = T_LPAREN | T_RPAREN | T_AND | T_OR | T_TERM string

datatype tree = Term string | And tree tree | Or tree tree

text \<open>
  \<open>keyword_at prev s kw\<close>: the regular expression \<open>\bKW\b\<close> (ignoring case) matches at the
  start of \<open>s\<close>, where \<open>prev\<close> is the character before \<open>s\<close> in the whole string.
\<close>

definition keyword_at :: "char option \<Rightarrow> string \<Rightarrow> string \<Rightarrow> bool" where
  "keyword_at prev s kw =
     ((case prev of None \<Rightarrow> True | Some p \<Rightarrow> \<not> is_word_char p)
      \<and> ascii_casefold (take (length kw) s) = kw
      \<and> (case drop (length kw) s of [] \<Rightarrow> True | n # _ \<Rightarrow> \<not> is_word_char n))"

text \<open>\<open>re.search(r"\b(?:AND|OR)\b|[()]", s, re.IGNORECASE)\<close> finds a match.\<close>

fun search_operator :: "char option \<Rightarrow> string \<Rightarrow> bool" where
  "search_operator prev [] = False"
| "search_operator prev (c # cs) =
     (keyword_at prev (c # cs) ''and'' \<or> keyword_at prev (c # cs) ''or''
      \<or> c = CHR ''('' \<or> c = CHR '')'' \<or> search_operator (Some c) cs)"

definition is_term_char :: "char \<Rightarrow> bool" where
  "is_term_char c = (c \<noteq> CHR ''('' \<and> c \<noteq> CHR '')'' \<and> \<not> is_space c)"

text \<open>
  One match of the token pattern after its leading \<open>\s*\<close>, at a non-empty \<open>s\<close> that starts
  with a non-space character: the alternatives in the pattern's order, with the text left
  after the match.
\<close>

definition match_token :: "char option \<Rightarrow> string \<Rightarrow> token \<times> string" where
  "match_token prev s =
     (let c = hd s; cs = tl s
      in if c = CHR ''('' then (T_LPAREN, cs)
         else if c = CHR '')'' then (T_RPAREN, cs)
         else if (c = CHR 0x22 \<or> c = CHR 0x27) \<and> c \<in> set cs then
           (T_TERM (takeWhile (\<lambda>x. x \<noteq> c) cs), tl (dropWhile (\<lambda>x. x \<noteq> c) cs))
         else if keyword_at prev s ''and'' then (T_AND, drop 3 s)
         else if keyword_at prev s ''or'' then (T_OR, drop 2 s)
         else (T_TERM (takeWhile is_term_char s), dropWhile is_term_char s))"

function tokenize_from :: "char option \<Rightarrow> string \<Rightarrow> error + token list" where
  "tokenize_from prev s =
     (if s = [] then Inr []
      else if dropWhile is_space s = [] then Inl (ValueError ''Invalid filter expression.'')
      else
        (case match_token (if is_space (hd s) then Some (last (takeWhile is_space s)) else prev)
                (dropWhile is_space s) of
           (tok, rest) \<Rightarrow>
             (case tokenize_from
                     (Some (last (take (length s - length rest) s))) rest of
                Inl e \<Rightarrow> Inl e
              | Inr tokens \<Rightarrow> Inr (tok # tokens))))"
  by pat_completeness auto
termination
proof (relation "measure (\<lambda>(prev, s). length s)")
  fix prev :: "char option" and s :: string and tok rest
  let ?s' = "dropWhile is_space s"
  let ?prev = "if is_space (hd s) then Some (last (takeWhile is_space s)) else prev"
  assume s: "s \<noteq> []" and ne: "?s' \<noteq> []"
    and x: "(tok, rest) = match_token ?prev ?s'"
  have le: "length ?s' \<le> length s" by (rule length_dropWhile_le)
  have hd: "\<not> is_space (hd ?s')" using ne by (rule hd_dropWhile)
  obtain c cs where cs: "?s' = c # cs" using ne by (cases ?s') auto
  with hd have c: "\<not> is_space c" by simp
  let ?t = "dropWhile (\<lambda>x. x \<noteq> c) cs"
  have q: "length (tl ?t) \<le> length cs"
    using length_dropWhile_le [of "\<lambda>x. x \<noteq> c" cs] by simp
  have t: "c \<noteq> CHR ''('' \<Longrightarrow> c \<noteq> CHR '')'' \<Longrightarrow> length (dropWhile is_term_char (c # cs)) \<le> length cs"
    using c length_dropWhile_le [of is_term_char cs] by (simp add: is_term_char_def)
  have "length rest < length ?s'"
    using x q t unfolding cs match_token_def Let_def
    by (auto split: if_splits)
  with le show "((Some (last (take (length s - length rest) s)), rest), (prev, s))
      \<in> measure (\<lambda>(prev, s). length s)" by simp
qed simp

declare tokenize_from.simps [simp del]

definition tokenize_filter_expression :: "string \<Rightarrow> error + token list" where
  "tokenize_filter_expression expression = tokenize_from None expression"

text \<open>
  The recursive-descent parser. The source keeps a cursor into the token list; here each
  function returns the tokens that remain.

  Python bounds the depth of nested calls, and the parser nests three calls for each level
  of parentheses. \<open>n\<close> is the number of frames the interpreter still allows, that of the
  function called included; a call for which none is left raises \<open>RecursionError\<close>, a
  \<open>RuntimeError\<close>, with the interpreter's message \<open>msg\<close>. \<open>parse_primary\<close> needs a frame
  for \<open>current\<close>, and a second one to \<open>consume\<close> a token, which calls \<open>current\<close> itself.
  The two loops call \<open>current\<close> and \<open>consume\<close> only after an operand has been parsed one
  frame further down, so these calls always find their frames.
\<close>

function parse_or_expression :: "string \<Rightarrow> nat \<Rightarrow> token list \<Rightarrow> error + (tree \<times> token list)"
  and parse_or_loop :: "string \<Rightarrow> nat \<Rightarrow> tree \<Rightarrow> token list \<Rightarrow> error + (tree \<times> token list)"
  and parse_and_expression :: "string \<Rightarrow> nat \<Rightarrow> token list \<Rightarrow> error + (tree \<times> token list)"
  and parse_and_loop :: "string \<Rightarrow> nat \<Rightarrow> tree \<Rightarrow> token list \<Rightarrow> error + (tree \<times> token list)"
  and parse_primary :: "string \<Rightarrow> nat \<Rightarrow> token list \<Rightarrow> error + (tree \<times> token list)"
where
  "parse_or_expression msg n ts =
     (if n = 0 then Inl (RuntimeError msg)
      else
        (case parse_and_expression msg (n - 1) ts of
           Inl e \<Rightarrow> Inl e
         | Inr (node, rest) \<Rightarrow> parse_or_loop msg (n - 1) node rest))"
| "parse_or_loop msg n node [] = Inr (node, [])"
| "parse_or_loop msg n node (t # ts) =
     (if t = T_OR then
        (case parse_and_expression msg n ts of
           Inl e \<Rightarrow> Inl e
         | Inr (rhs, rest) \<Rightarrow> parse_or_loop msg n (Or node rhs) rest)
      else Inr (node, t # ts))"
| "parse_and_expression msg n ts =
     (if n = 0 then Inl (RuntimeError msg)
      else
        (case parse_primary msg (n - 1) ts of
           Inl e \<Rightarrow> Inl e
         | Inr (node, rest) \<Rightarrow> parse_and_loop msg (n - 1) node rest))"
| "parse_and_loop msg n node [] = Inr (node, [])"
| "parse_and_loop msg n node (t # ts) =
     (if t = T_AND then
        (case parse_primary msg n ts of
           Inl e \<Rightarrow> Inl e
         | Inr (rhs, rest) \<Rightarrow> parse_and_loop msg n (And node rhs) rest)
      else Inr (node, t # ts))"
| "parse_primary msg n [] =
     (if n < 2 then Inl (RuntimeError msg)
      else Inl (ValueError ''Incomplete filter expression.''))"
| "parse_primary msg n (T_TERM s # ts) =
     (if n < 3 then Inl (RuntimeError msg) else Inr (Term s, ts))"
| "parse_primary msg n (T_LPAREN # ts) =
     (if n < 3 then Inl (RuntimeError msg)
      else
        (case parse_or_expression msg (n - 1) ts of
           Inl e \<Rightarrow> Inl e
         | Inr (node, rest) \<Rightarrow>
             (case rest of
                [] \<Rightarrow> Inl (ValueError ''Incomplete filter expression.'')
              | t # rest' \<Rightarrow>
                  if t = T_RPAREN then Inr (node, rest')
                  else Inl (ValueError ''Expected rparen in filter expression.''))))"
| "parse_primary msg n (T_RPAREN # ts) =
     (if n < 2 then Inl (RuntimeError msg)
      else Inl (ValueError ''Expected a filter term or parenthesized group.''))"
| "parse_primary msg n (T_AND # ts) =
     (if n < 2 then Inl (RuntimeError msg)
      else Inl (ValueError ''Expected a filter term or parenthesized group.''))"
| "parse_primary msg n (T_OR # ts) =
     (if n < 2 then Inl (RuntimeError msg)
      else Inl (ValueError ''Expected a filter term or parenthesized group.''))"
  by pat_completeness auto

lemma parse_rest_length:
  "parse_or_expression_parse_or_loop_parse_and_expression_parse_and_loop_parse_primary_dom
     (Inl (Inl (msg1, k1, ts1))) \<Longrightarrow>
   parse_or_expression msg1 k1 ts1 = Inr (n1, r1) \<Longrightarrow> length r1 \<le> length ts1"
  "parse_or_expression_parse_or_loop_parse_and_expression_parse_and_loop_parse_primary_dom
     (Inl (Inr (msg2, k2, node2, ts2))) \<Longrightarrow>
   parse_or_loop msg2 k2 node2 ts2 = Inr (n2, r2) \<Longrightarrow> length r2 \<le> length ts2"
  "parse_or_expression_parse_or_loop_parse_and_expression_parse_and_loop_parse_primary_dom
     (Inr (Inl (msg3, k3, ts3))) \<Longrightarrow>
   parse_and_expression msg3 k3 ts3 = Inr (n3, r3) \<Longrightarrow> length r3 \<le> length ts3"
  "parse_or_expression_parse_or_loop_parse_and_expression_parse_and_loop_parse_primary_dom
     (Inr (Inr (Inl (msg4, k4, node4, ts4)))) \<Longrightarrow>
   parse_and_loop msg4 k4 node4 ts4 = Inr (n4, r4) \<Longrightarrow> length r4 \<le> length ts4"
  "parse_or_expression_parse_or_loop_parse_and_expression_parse_and_loop_parse_primary_dom
     (Inr (Inr (Inr (msg5, k5, ts5)))) \<Longrightarrow>
   parse_primary msg5 k5 ts5 = Inr (n5, r5) \<Longrightarrow> length r5 \<le> length ts5"
proof (induct msg1 k1 ts1 and msg2 k2 node2 ts2 and msg3 k3 ts3 and msg4 k4 node4 ts4
      and msg5 k5 ts5
    arbitrary: n1 r1 and n2 r2 and n3 r3 and n4 r4 and n5 r5
    rule: parse_or_expression_parse_or_loop_parse_and_expression_parse_and_loop_parse_primary.pinduct)
  case (1 msg n ts)
  then show ?case
    by (fastforce simp: parse_or_expression.psimps split: sum.splits prod.splits if_splits)
next
  case (2 msg n node)
  then show ?case by (simp add: parse_or_loop.psimps)
next
  case (3 msg n node t ts)
  then show ?case
    by (fastforce simp: parse_or_loop.psimps split: sum.splits prod.splits if_splits)
next
  case (4 msg n ts)
  then show ?case
    by (fastforce simp: parse_and_expression.psimps split: sum.splits prod.splits if_splits)
next
  case (5 msg n node)
  then show ?case by (simp add: parse_and_loop.psimps)
next
  case (6 msg n node t ts)
  then show ?case
    by (fastforce simp: parse_and_loop.psimps split: sum.splits prod.splits if_splits)
next
  case (7 msg n)
  then show ?case by (simp add: parse_primary.psimps split: if_splits)
next
  case (8 msg n s ts)
  then show ?case by (simp add: parse_primary.psimps split: if_splits)
next
  case (9 msg n ts)
  then show ?case
    by (fastforce simp: parse_primary.psimps split: sum.splits prod.splits list.splits if_splits)
next
  case (10 msg n ts)
  then show ?case by (simp add: parse_primary.psimps split: if_splits)
next
  case (11 msg n ts)
  then show ?case by (simp add: parse_primary.psimps split: if_splits)
next
  case (12 msg n ts)
  then show ?case by (simp add: parse_primary.psimps split: if_splits)
qed

termination parse_or_expression
  apply (relation "measure (\<lambda>x. case x of
      Inl (Inl (msg, n, ts)) \<Rightarrow> 3 * length ts + 2
    | Inl (Inr (msg, n, node, ts)) \<Rightarrow> 3 * length ts
    | Inr (Inl (msg, n, ts)) \<Rightarrow> 3 * length ts + 1
    | Inr (Inr (Inl (msg, n, node, ts))) \<Rightarrow> 3 * length ts
    | Inr (Inr (Inr (msg, n, ts))) \<Rightarrow> 3 * length ts)")
  apply (auto dest: parse_rest_length)
  done

declare parse_or_expression.simps [simp del] parse_and_expression.simps [simp del]

text \<open>
  The state of the interpreter the parser depends on: the frames left when
  \<open>parse_filter_expression\<close> calls \<open>parse_or_expression\<close>, and the message of the
  \<open>RecursionError\<close> it raises.
\<close>

record stack =
  frames_left :: nat
  overflow_message :: string

definition parse_filter_expression :: "stack \<Rightarrow> string \<Rightarrow> error + tree" where
  "parse_filter_expression S expression =
     (let normalized_expression = strip expression
      in if normalized_expression = [] then
           Inl (ValueError ''Filter expressions cannot be empty.'')
         else if \<not> search_operator None normalized_expression then
           Inr (Term normalized_expression)
         else
           (case tokenize_filter_expression normalized_expression of
              Inl e \<Rightarrow> Inl e
            | Inr tokens \<Rightarrow>
                (case parse_or_expression (overflow_message S) (frames_left S) tokens of
                   Inl e \<Rightarrow> Inl e
                 | Inr (tree, rest) \<Rightarrow>
                     if rest \<noteq> [] then Inl (ValueError ''Unexpected token in filter expression.'')
                     else Inr tree)))"

definition parse_filter_rule_lines :: "string \<Rightarrow> string list" where
  "parse_filter_rule_lines rules =
     map strip (filter (\<lambda>line. strip line \<noteq> []) (splitlines rules))"

text \<open>The list comprehension stops at the first rule that raises.\<close>

fun parse_each :: "stack \<Rightarrow> string list \<Rightarrow> error + tree list" where
  "parse_each S [] = Inr []"
| "parse_each S (rule # rules) =
     (case parse_filter_expression S rule of
        Inl e \<Rightarrow> Inl e
      | Inr tree \<Rightarrow>
          (case parse_each S rules of Inl e \<Rightarrow> Inl e | Inr trees \<Rightarrow> Inr (tree # trees)))"

definition parse_filter_rules :: "stack \<Rightarrow> string \<Rightarrow> error + tree list" where
  "parse_filter_rules S rules = parse_each S (parse_filter_rule_lines rules)"

text \<open>
  The filter engine calls two library functions: \<open>str.casefold\<close>, the parameter \<open>F\<close>, and
  \<open>fnmatch.fnmatchcase\<close>, whose bracket classes are the parameter \<open>B\<close>.
\<close>

definition entry_matches_filter_term ::
  "(string \<Rightarrow> string) \<Rightarrow> (string \<Rightarrow> char \<Rightarrow> bool) \<Rightarrow> feed_entry \<Rightarrow> string \<Rightarrow> bool" where
  "entry_matches_filter_term F B entry term =
     (let title' = F (title entry);
          normalized_term = F term
      in if CHR ''*'' \<in> set normalized_term \<or> CHR ''?'' \<in> set normalized_term then
           (let pattern = normalized_term;
                pattern = (if \<not> startswith pattern ''*'' then ''*'' @ pattern else pattern);
                pattern = (if \<not> endswith pattern ''*'' then pattern @ ''*'' else pattern)
            in fnmatchcase B title' pattern)
         else contains title' normalized_term)"

fun evaluate_filter_expression ::
  "(string \<Rightarrow> string) \<Rightarrow> (string \<Rightarrow> char \<Rightarrow> bool) \<Rightarrow> tree \<Rightarrow> feed_entry \<Rightarrow> bool" where
  "evaluate_filter_expression F B (Term t) entry = entry_matches_filter_term F B entry t"
| "evaluate_filter_expression F B (And l r) entry =
     (evaluate_filter_expression F B l entry \<and> evaluate_filter_expression F B r entry)"
| "evaluate_filter_expression F B (Or l r) entry =
     (evaluate_filter_expression F B l entry \<or> evaluate_filter_expression F B r entry)"

definition entry_matches_any_filter_rule ::
  "(string \<Rightarrow> string) \<Rightarrow> (string \<Rightarrow> char \<Rightarrow> bool) \<Rightarrow> feed_entry \<Rightarrow> tree list \<Rightarrow> bool" where
  "entry_matches_any_filter_rule F B entry parsed_rules =
     list_ex (\<lambda>rule. evaluate_filter_expression F B rule entry) parsed_rules"

definition apply_entry_filters ::
  "(string \<Rightarrow> string) \<Rightarrow> (string \<Rightarrow> char \<Rightarrow> bool) \<Rightarrow> feed_entry list \<Rightarrow> tree list
     \<Rightarrow> tree list \<Rightarrow> feed_entry list" where
  "apply_entry_filters F B entries include_rules exclude_rules =
     (if include_rules = [] \<and> exclude_rules = [] then entries
      else filter (\<lambda>entry.
             (include_rules = [] \<or> entry_matches_any_filter_rule F B entry include_rules)
             \<and> (exclude_rules = [] \<or> \<not> entry_matches_any_filter_rule F B entry exclude_rules))
           entries)"

subsection \<open>Malformed rule lines\<close>

text \<open>
  The three ways in which the tokens of a rule line can fail to form an expression, found
  by reading them once from left to right with the number of parentheses still open:
  where an operand is expected there is an operator, a \<open>)\<close> or nothing (an empty term);
  a term or a \<open>(\<close> follows a complete operand (trailing tokens); a \<open>)\<close> closes nothing,
  or the line ends with a \<open>(\<close> still open (unbalanced parentheses). \<open>scan_tokens\<close> reports
  the first of them it meets. It does not follow the parser.
\<close>

datatype shape = WellFormed | UnbalancedParentheses | EmptyTerm | TrailingTokens

fun scan_tokens :: "bool \<Rightarrow> nat \<Rightarrow> token list \<Rightarrow> shape" where
  "scan_tokens True opened [] = EmptyTerm"
| "scan_tokens True opened (T_TERM s # ts) = scan_tokens False opened ts"
| "scan_tokens True opened (T_LPAREN # ts) = scan_tokens True (Suc opened) ts"
| "scan_tokens True opened (T_RPAREN # ts) = EmptyTerm"
| "scan_tokens True opened (T_AND # ts) = EmptyTerm"
| "scan_tokens True opened (T_OR # ts) = EmptyTerm"
| "scan_tokens False opened [] = (if opened = 0 then WellFormed else UnbalancedParentheses)"
| "scan_tokens False opened (T_AND # ts) = scan_tokens True opened ts"
| "scan_tokens False opened (T_OR # ts) = scan_tokens True opened ts"
| "scan_tokens False opened (T_RPAREN # ts) =
     (if opened = 0 then UnbalancedParentheses else scan_tokens False (opened - 1) ts)"
| "scan_tokens False opened (T_TERM s # ts) = TrailingTokens"
| "scan_tokens False opened (T_LPAREN # ts) = TrailingTokens"

text \<open>
  The shape of a line of rule text. A blank line is no rule, and a line without \<open>AND\<close>,
  \<open>OR\<close> and parentheses is one bare term; any other line is judged on its tokens, so that
  quoted text, whatever it contains, counts as one term. A line that cannot be cut into
  tokens is given no shape of its own.
\<close>

definition rule_shape :: "string \<Rightarrow> shape" where
  "rule_shape line =
     (let text = strip line
      in if text = [] \<or> \<not> search_operator None text then WellFormed
         else (case tokenize_filter_expression text of
                 Inl e \<Rightarrow> WellFormed
               | Inr tokens \<Rightarrow> scan_tokens True 0 tokens))"

section \<open>External capabilities\<close>

text \<open>
  What the extractor consumes and does not implement: the two page fetchers, the document
  parser and its nodes (\<open>select\<close>, \<open>select_one\<close>, \<open>get("href")\<close>,
  \<open>get_text(" ", strip=True)\<close>, \<open>parent\<close>, \<open>contents\<close>, \<open>name\<close>, \<open>==\<close>),
  \<open>urllib.parse\<close>, \<open>str.casefold\<close>, the bracket classes of \<open>fnmatch\<close>, and the state of
  the interpreter's stack. A node is a value of type \<open>'n\<close>; two values are the same node
  (\<open>is\<close>) when they are equal, and \<open>node_eq\<close> is the library's \<open>==\<close> on nodes.

  A fetcher returns the page or the exception it raises: \<open>fetch_html_http\<close> turns the
  errors of \<open>urllib\<close> into \<open>ValueError\<close> and the browser's into \<open>RuntimeError\<close>, and lets
  any other exception through. \<open>select\<close> and \<open>select_one\<close> are what the selector engine
  returns for a selector it accepts; the model does not cover a selector text that the
  engine refuses to compile.
\<close>

record 'n env =
  bs4_installed :: bool
  fetch_html_http :: "string \<Rightarrow> error + string"
  fetch_html_browser :: "string \<Rightarrow> error + string"
  parse_document :: "string \<Rightarrow> 'n"
  select :: "'n \<Rightarrow> string \<Rightarrow> 'n list"
  select_one :: "'n \<Rightarrow> string \<Rightarrow> 'n option"
  get_href :: "'n \<Rightarrow> string option"
  get_text :: "'n \<Rightarrow> string"
  parent :: "'n \<Rightarrow> 'n option"
  contents :: "'n \<Rightarrow> 'n list"
  node_name :: "'n \<Rightarrow> string option"
  has_get_text :: "'n \<Rightarrow> bool"
  node_str :: "'n \<Rightarrow> string"
  node_eq :: "'n \<Rightarrow> 'n \<Rightarrow> bool"
  urljoin :: "string \<Rightarrow> string \<Rightarrow> string"
  url_scheme :: "string \<Rightarrow> string"
  url_netloc :: "string \<Rightarrow> string"
  str_casefold :: "string \<Rightarrow> string"
  bracket_matches :: "string \<Rightarrow> char \<Rightarrow> bool"
  python_stack :: stack

definition fetch_html :: "'n env \<Rightarrow> string \<Rightarrow> string \<Rightarrow> error + string" where
  "fetch_html E url mode =
     (if mode = ''browser'' then fetch_html_browser E url else fetch_html_http E url)"

section \<open>Entry extraction\<close>

definition select_node_with_scope :: "'n env \<Rightarrow> 'n \<Rightarrow> string \<Rightarrow> 'n option" where
  "select_node_with_scope E node selector =
     (let normalized_selector = strip selector
      in if normalized_selector \<in> {'':scope'', ''self''} then Some node
         else select_one E node selector)"

definition select_nodes_with_scope :: "'n env \<Rightarrow> 'n \<Rightarrow> string \<Rightarrow> 'n list" where
  "select_nodes_with_scope E node selector =
     (let normalized_selector = strip selector
      in if normalized_selector \<in> {'':scope'', ''self''} then [node]
         else select E node selector)"

definition normalize_topic_link :: "'n env \<Rightarrow> string \<Rightarrow> string \<Rightarrow> error + string" where
  "normalize_topic_link E source href =
     (let joined = urljoin E source href
      in if url_scheme E joined \<notin> {''http'', ''https''} then
           Inl (ValueError ''Topic links must resolve to http or https URLs.'')
         else if url_netloc E joined \<noteq> url_netloc E source then
           Inl (ValueError ''Off-site topic links are blocked by default.'')
         else Inr joined)"

text \<open>\<open>Inr None\<close> is the source's \<open>return None\<close>: the candidate is skipped.\<close>

definition build_entry_from_nodes ::
  "'n env \<Rightarrow> 'n \<Rightarrow> 'n option \<Rightarrow> 'n option \<Rightarrow> string option \<Rightarrow> feed_request \<Rightarrow> int
     \<Rightarrow> error + feed_entry option" where
  "build_entry_from_nodes E container_node title_node link_node title_text config now =
     (case title_node of
        None \<Rightarrow> Inr None
      | Some tn \<Rightarrow>
     (case link_node of
        None \<Rightarrow> Inr None
      | Some ln \<Rightarrow>
     (case get_href E ln of
        None \<Rightarrow> Inr None
      | Some href \<Rightarrow>
          if href = [] then Inr None
          else
            (case normalize_topic_link E (source_url config) href of
               Inl e \<Rightarrow> Inl e
             | Inr absolute_link \<Rightarrow>
                 (let title' = (case title_text of
                                  None \<Rightarrow> get_text E tn
                                | Some t \<Rightarrow> if t \<noteq> [] then t else get_text E tn)
                  in if title' = [] then Inr None
                     else
                       (let summary' =
                              (if summary_selector config \<noteq> [] then
                                 (case select_node_with_scope E container_node
                                         (summary_selector config) of
                                    None \<Rightarrow> []
                                  | Some summary_node \<Rightarrow> get_text E summary_node)
                               else [])
                        in Inr (Some \<lparr>title = title', link = absolute_link,
                                       summary = summary', published_at = now\<rparr>)))))))"

text \<open>
  The loop of \<open>extract_entries_from_item_nodes\<close> over the nodes still to visit, with the
  entries accepted so far; \<open>break\<close> returns them.
\<close>

fun item_nodes_loop ::
  "'n env \<Rightarrow> feed_request \<Rightarrow> int \<Rightarrow> tree list \<Rightarrow> tree list \<Rightarrow> 'n list \<Rightarrow> feed_entry list
     \<Rightarrow> error + feed_entry list" where
  "item_nodes_loop E config now parsed_filter_rules parsed_exclude_filter_rules [] entries =
     Inr entries"
| "item_nodes_loop E config now parsed_filter_rules parsed_exclude_filter_rules (node # nodes)
     entries =
     (case build_entry_from_nodes E node
             (select_node_with_scope E node (title_selector config))
             (select_node_with_scope E node (link_selector config)) None config now of
        Inl e \<Rightarrow> Inl e
      | Inr None \<Rightarrow>
          item_nodes_loop E config now parsed_filter_rules parsed_exclude_filter_rules nodes
            entries
      | Inr (Some entry) \<Rightarrow>
          if parsed_filter_rules \<noteq> []
             \<and> \<not> entry_matches_any_filter_rule (str_casefold E) (bracket_matches E) entry
                    parsed_filter_rules
          then item_nodes_loop E config now parsed_filter_rules parsed_exclude_filter_rules
                 nodes entries
          else if parsed_exclude_filter_rules \<noteq> []
             \<and> entry_matches_any_filter_rule (str_casefold E) (bracket_matches E) entry
                  parsed_exclude_filter_rules
          then item_nodes_loop E config now parsed_filter_rules parsed_exclude_filter_rules
                 nodes entries
          else if int (length (entries @ [entry])) \<ge> max_items config
          then Inr (entries @ [entry])
          else item_nodes_loop E config now parsed_filter_rules parsed_exclude_filter_rules
                 nodes (entries @ [entry]))"

definition extract_entries_from_item_nodes ::
  "'n env \<Rightarrow> 'n list \<Rightarrow> feed_request \<Rightarrow> int \<Rightarrow> tree list \<Rightarrow> tree list
     \<Rightarrow> error + feed_entry list" where
  "extract_entries_from_item_nodes E nodes config now parsed_filter_rules
     parsed_exclude_filter_rules =
     item_nodes_loop E config now parsed_filter_rules parsed_exclude_filter_rules nodes []"

definition should_use_container_link_fallback ::
  "'n env \<Rightarrow> 'n list \<Rightarrow> feed_entry list \<Rightarrow> feed_request \<Rightarrow> bool" where
  "should_use_container_link_fallback E nodes entries config =
     (if length entries > 1 then False
      else list_ex (\<lambda>node. length (select_nodes_with_scope E node (link_selector config)) > 1)
             nodes)"

definition resolve_repeated_link_title_node :: "'n env \<Rightarrow> 'n \<Rightarrow> feed_request \<Rightarrow> 'n" where
  "resolve_repeated_link_title_node E link_node config =
     (let normalized_title_selector = strip (title_selector config);
          normalized_link_selector = strip (link_selector config)
      in if normalized_title_selector \<in> {'':scope'', ''self''} then link_node
         else if normalized_title_selector = normalized_link_selector then link_node
         else (case select_node_with_scope E link_node (title_selector config) of
                 Some title_node \<Rightarrow> title_node
               | None \<Rightarrow> link_node))"

text \<open>\<open>siblings.index(link_node)\<close>: the first sibling that is, or equals, the link node.\<close>

fun index_of :: "'n env \<Rightarrow> 'n list \<Rightarrow> 'n \<Rightarrow> nat option" where
  "index_of E [] x = None"
| "index_of E (y # ys) x =
     (if y = x \<or> node_eq E y x then Some 0 else map_option Suc (index_of E ys x))"

definition sibling_text :: "'n env \<Rightarrow> 'n \<Rightarrow> string" where
  "sibling_text E sibling =
     (if has_get_text E sibling then get_text E sibling else strip (node_str E sibling))"

text \<open>
  One direction of the walk over the siblings: the non-empty texts met before the first
  \<open>br\<close> or \<open>a\<close> node, in the order visited.
\<close>

fun sibling_walk :: "'n env \<Rightarrow> 'n list \<Rightarrow> string list" where
  "sibling_walk E [] = []"
| "sibling_walk E (sibling # siblings) =
     (if node_name E sibling = Some ''br'' then []
      else if node_name E sibling = Some ''a'' then []
      else (if sibling_text E sibling \<noteq> [] then [sibling_text E sibling] else [])
           @ sibling_walk E siblings)"

definition extract_inline_title_text :: "'n env \<Rightarrow> 'n \<Rightarrow> 'n \<Rightarrow> string" where
  "extract_inline_title_text E container_node link_node =
     (case parent E link_node of
        None \<Rightarrow> get_text E link_node
      | Some parent_node \<Rightarrow>
          (let anchor_text = get_text E link_node;
               siblings = contents E parent_node
           in case index_of E siblings link_node of
                None \<Rightarrow> anchor_text
              | Some link_index \<Rightarrow>
                  (let title_parts =
                         rev (sibling_walk E (rev (take link_index siblings)))
                         @ (if anchor_text \<noteq> [] then [anchor_text] else [])
                         @ sibling_walk E (drop (link_index + 1) siblings);
                       joined = join '' '' (split (join '' '' title_parts))
                   in if joined \<noteq> [] then joined else anchor_text)))"

definition extract_repeated_link_title_text ::
  "'n env \<Rightarrow> 'n \<Rightarrow> 'n \<Rightarrow> 'n \<Rightarrow> feed_request \<Rightarrow> string option" where
  "extract_repeated_link_title_text E container_node link_node title_node config =
     (let normalized_title_selector = strip (title_selector config);
          normalized_link_selector = strip (link_selector config)
      in if normalized_title_selector \<notin> {normalized_link_selector, '':scope'', ''self''} then None
         else if title_node \<noteq> link_node \<and> get_text E title_node \<noteq> [] then
           Some (get_text E title_node)
         else if extract_inline_title_text E container_node link_node \<noteq> [] then
           Some (extract_inline_title_text E container_node link_node)
         else None)"

text \<open>
  The two nested loops of \<open>extract_entries_from_link_collections\<close> visit the pairs
  (item node, link node) in the order of \<open>link_pairs\<close>; the early \<open>return\<close> leaves both.
\<close>

definition link_pairs :: "'n env \<Rightarrow> 'n list \<Rightarrow> feed_request \<Rightarrow> ('n \<times> 'n) list" where
  "link_pairs E nodes config =
     concat (map (\<lambda>node. map (\<lambda>link_node. (node, link_node))
                            (select_nodes_with_scope E node (link_selector config))) nodes)"

fun link_collections_loop ::
  "'n env \<Rightarrow> feed_request \<Rightarrow> int \<Rightarrow> tree list \<Rightarrow> tree list \<Rightarrow> ('n \<times> 'n) list
     \<Rightarrow> string set \<Rightarrow> feed_entry list \<Rightarrow> error + feed_entry list" where
  "link_collections_loop E config now parsed_filter_rules parsed_exclude_filter_rules []
     seen_links entries = Inr entries"
| "link_collections_loop E config now parsed_filter_rules parsed_exclude_filter_rules
     ((node, link_node) # pairs) seen_links entries =
     (case build_entry_from_nodes E node
             (Some (resolve_repeated_link_title_node E link_node config)) (Some link_node)
             (extract_repeated_link_title_text E node link_node
                (resolve_repeated_link_title_node E link_node config) config)
             config now of
        Inl e \<Rightarrow> Inl e
      | Inr None \<Rightarrow>
          link_collections_loop E config now parsed_filter_rules parsed_exclude_filter_rules
            pairs seen_links entries
      | Inr (Some entry) \<Rightarrow>
          if link entry \<in> seen_links
          then link_collections_loop E config now parsed_filter_rules
                 parsed_exclude_filter_rules pairs seen_links entries
          else if parsed_filter_rules \<noteq> []
             \<and> \<not> entry_matches_any_filter_rule (str_casefold E) (bracket_matches E) entry
                    parsed_filter_rules
          then link_collections_loop E config now parsed_filter_rules
                 parsed_exclude_filter_rules pairs seen_links entries
          else if parsed_exclude_filter_rules \<noteq> []
             \<and> entry_matches_any_filter_rule (str_casefold E) (bracket_matches E) entry
                  parsed_exclude_filter_rules
          then link_collections_loop E config now parsed_filter_rules
                 parsed_exclude_filter_rules pairs seen_links entries
          else if int (length (entries @ [entry])) \<ge> max_items config
          then Inr (entries @ [entry])
          else link_collections_loop E config now parsed_filter_rules
                 parsed_exclude_filter_rules pairs (insert (link entry) seen_links)
                 (entries @ [entry]))"

definition extract_entries_from_link_collections ::
  "'n env \<Rightarrow> 'n list \<Rightarrow> feed_request \<Rightarrow> int \<Rightarrow> tree list \<Rightarrow> tree list
     \<Rightarrow> error + feed_entry list" where
  "extract_entries_from_link_collections E nodes config now parsed_filter_rules
     parsed_exclude_filter_rules =
     link_collections_loop E config now parsed_filter_rules parsed_exclude_filter_rules
       (link_pairs E nodes config) {} []"

text \<open>
  \<open>extract_feed_entries\<close> with the default \<open>progress=None\<close> (as \<open>refresh_profile\<close> calls
  it), so that \<open>emit_progress\<close> does nothing. Besides the outcome the model returns the
  requests sent to the network, oldest first; \<open>now\<close> is the clock reading the source
  takes after parsing the rules.
\<close>

datatype request = Fetch string string

definition extract_feed_entries ::
  "'n env \<Rightarrow> feed_request \<Rightarrow> int \<Rightarrow> request list \<times> (error + feed_entry list)" where
  "extract_feed_entries E config now =
     (if \<not> bs4_installed E then
        ([], Inl (RuntimeError ''beautifulsoup4 is required to extract topics from HTML.''))
      else
        (case fetch_html E (source_url config) (fetch_mode config) of
           Inl e \<Rightarrow> ([Fetch (source_url config) (fetch_mode config)], Inl e)
         | Inr html \<Rightarrow>
             ([Fetch (source_url config) (fetch_mode config)],
              (let soup = parse_document E html;
                   nodes = select E soup (item_selector config)
               in if nodes = [] then
                    Inl (ValueError ''No topic nodes matched the item selector.'')
                  else
                    (case parse_filter_rules (python_stack E) (filter_rules config) of
                       Inl e \<Rightarrow> Inl e
                     | Inr parsed_filter_rules \<Rightarrow>
                    (case parse_filter_rules (python_stack E) (exclude_filter_rules config) of
                       Inl e \<Rightarrow> Inl e
                     | Inr parsed_exclude_filter_rules \<Rightarrow>
                    (case extract_entries_from_item_nodes E nodes config now
                            parsed_filter_rules parsed_exclude_filter_rules of
                       Inl e \<Rightarrow> Inl e
                     | Inr entries \<Rightarrow>
                    (case (if should_use_container_link_fallback E nodes entries config then
                             (case extract_entries_from_link_collections E nodes config now
                                     parsed_filter_rules parsed_exclude_filter_rules of
                                Inl e \<Rightarrow> Inl e
                              | Inr container_entries \<Rightarrow>
                                  Inr (if length container_entries > length entries
                                       then container_entries else entries))
                           else Inr entries) of
                       Inl e \<Rightarrow> Inl e
                     | Inr entries' \<Rightarrow>
                         if entries' = [] then
                           Inl (ValueError
                                  ''Matched nodes did not contain usable titles and links.'')
                         else
                           Inr (slice_to
                                  (apply_entry_filters (str_casefold E) (bracket_matches E)
                                     entries' parsed_filter_rules parsed_exclude_filter_rules)
                                  (max_items config))))))))))"

subsection \<open>Notions used to state the properties\<close>

text \<open>
  \<open>accepted\<close> is the negation of the two \<open>continue\<close> guards the loops apply to a built
  entry; \<open>off_host_message\<close> is the message of the \<open>ValueError\<close> that
  \<open>normalize_topic_link\<close> raises for an href it rejects.
\<close>

definition accepted :: "'n env \<Rightarrow> tree list \<Rightarrow> tree list \<Rightarrow> feed_entry \<Rightarrow> bool" where
  "accepted E inc exc entry \<longleftrightarrow>
     (inc = [] \<or> entry_matches_any_filter_rule (str_casefold E) (bracket_matches E) entry inc)
     \<and> (exc = [] \<or>
          \<not> entry_matches_any_filter_rule (str_casefold E) (bracket_matches E) entry exc)"

definition off_host_message :: "'n env \<Rightarrow> feed_request \<Rightarrow> string \<Rightarrow> string" where
  "off_host_message E config href =
     (if url_scheme E (urljoin E (source_url config) href) \<notin> {''http'', ''https''}
      then ''Topic links must resolve to http or https URLs.''
      else ''Off-site topic links are blocked by default.'')"

section \<open>Profile store and refresh scheduling\<close>

text \<open>
  A row of the \<open>profiles\<close> table holds the configuration columns of a \<open>FeedRequest\<close> and
  the status columns; \<open>StoredProfile\<close> adds the joined \<open>item_count\<close>. A timestamp column
  holds the empty string or the ISO text of a UTC \<open>datetime\<close>: \<open>None\<close> or that instant, in
  microseconds since the epoch (\<open>datetime.fromisoformat\<close> is applied to nothing else).
\<close>

record profile_row = feed_request +
  id_col :: nat
  feed_token :: string
  active :: bool
  last_status :: string
  last_error :: string
  last_refreshed_at :: "int option"
  refresh_anchor_at :: "int option"
  created_at :: "int option"
  updated_at :: "int option"

record stored_profile = profile_row +
  item_count :: nat

record feed_item_row =
  item_id :: nat
  item_profile_id :: nat
  item_title :: string
  item_link :: string
  item_summary :: string
  discovered_at :: int

text \<open>
  The two tables in insertion order, with the \<open>AUTOINCREMENT\<close> counters. A new key is
  one more than the largest key the table holds or has handed out.
\<close>

record db =
  profiles :: "profile_row list"
  feed_items :: "feed_item_row list"
  profile_seq :: nat
  item_seq :: nat

definition to_feed_request :: "stored_profile \<Rightarrow> feed_request" where
  "to_feed_request p = feed_request.truncate p"

definition profile_from_row :: "profile_row \<Rightarrow> nat \<Rightarrow> stored_profile" where
  "profile_from_row row n = profile_row.extend row (stored_profile.fields n)"

definition get_profile_by_id :: "db \<Rightarrow> nat \<Rightarrow> stored_profile option" where
  "get_profile_by_id d profile_id =
     (case find (\<lambda>row. id_col row = profile_id) (profiles d) of
        None \<Rightarrow> None
      | Some row \<Rightarrow>
          Some (profile_from_row row
                  (length (filter (\<lambda>fi. item_profile_id fi = id_col row) (feed_items d)))))"

text \<open>\<open>UPDATE profiles SET ... WHERE id = ?\<close>, the assignments given as \<open>f\<close>.\<close>

definition update_profiles_where_id :: "db \<Rightarrow> nat \<Rightarrow> (profile_row \<Rightarrow> profile_row) \<Rightarrow> db" where
  "update_profiles_where_id d profile_id f =
     d\<lparr>profiles := map (\<lambda>row. if id_col row = profile_id then f row else row) (profiles d)\<rparr>"

text \<open>
  \<open>create_profile\<close> with the token \<open>secrets.token_urlsafe\<close> returned and the reading of
  the clock. The result is \<open>None\<close> when the insert violates \<open>UNIQUE(feed_token)\<close>, which
  raises \<open>sqlite3.IntegrityError\<close>.
\<close>

definition create_profile ::
  "db \<Rightarrow> string \<Rightarrow> feed_request \<Rightarrow> int \<Rightarrow> (db \<times> (error + stored_profile)) option" where
  "create_profile d token config now =
     (if list_ex (\<lambda>row. feed_token row = token) (profiles d) then None
      else
        (let profile_id = fold max (map id_col (profiles d)) (profile_seq d) + 1;
             row = feed_request.extend config
                     (profile_row.fields profile_id token True ''idle'' [] None
                        (Some now) (Some now) (Some now));
             d' = d\<lparr>profiles := profiles d @ [row], profile_seq := profile_id\<rparr>
         in Some (d', case get_profile_by_id d' profile_id of
                        None \<Rightarrow> Inl (RuntimeError ''Failed to load the saved profile.'')
                      | Some profile \<Rightarrow> Inr profile)))"

definition update_profile ::
  "db \<Rightarrow> nat \<Rightarrow> feed_request \<Rightarrow> int \<Rightarrow> db \<times> (error + stored_profile)" where
  "update_profile d profile_id config now =
     (if get_profile_by_id d profile_id = None then (d, Inl (ValueError ''Profile not found.''))
      else
        (let d' = update_profiles_where_id d profile_id
                    (\<lambda>row. row\<lparr>feed_title := feed_title config,
                                 source_url := source_url config,
                                 item_selector := item_selector config,
                                 title_selector := title_selector config,
                                 link_selector := link_selector config,
                                 summary_selector := summary_selector config,
                                 filter_rules := filter_rules config,
                                 exclude_filter_rules := exclude_filter_rules config,
                                 max_items := max_items config,
                                 refresh_interval_minutes := refresh_interval_minutes config,
                                 fetch_mode := fetch_mode config,
                                 last_status := ''idle'',
                                 last_error := [],
                                 updated_at := Some now\<rparr>)
         in (d', case get_profile_by_id d' profile_id of
                   None \<Rightarrow> Inl (RuntimeError ''Failed to load the updated profile.'')
                 | Some profile \<Rightarrow> Inr profile)))"

definition set_profile_active ::
  "db \<Rightarrow> nat \<Rightarrow> bool \<Rightarrow> int \<Rightarrow> db \<times> (error + stored_profile)" where
  "set_profile_active d profile_id active' now =
     (if get_profile_by_id d profile_id = None then (d, Inl (ValueError ''Profile not found.''))
      else
        (let d' = (if active' then
                     update_profiles_where_id d profile_id
                       (\<lambda>row. row\<lparr>active := True, last_status := ''idle'', last_error := [],
                                    refresh_anchor_at := Some now, updated_at := Some now\<rparr>)
                   else
                     update_profiles_where_id d profile_id
                       (\<lambda>row. row\<lparr>active := False, last_status := ''disabled'',
                                    last_error := [], updated_at := Some now\<rparr>))
         in (d', case get_profile_by_id d' profile_id of
                   None \<Rightarrow> Inl (RuntimeError ''Failed to load the updated profile.'')
                 | Some updated \<Rightarrow> Inr updated)))"

definition timedelta_minutes :: "int \<Rightarrow> int" where
  "timedelta_minutes m = m * 60000000"

text \<open>\<open>should_refresh\<close>, with the reading of the clock it compares against.\<close>

definition should_refresh :: "stored_profile \<Rightarrow> int \<Rightarrow> bool" where
  "should_refresh profile now =
     (if \<not> active profile then False
      else if refresh_interval_minutes profile = 0 then False
      else
        (let base_candidates =
               filter (\<lambda>v. v \<noteq> None) [last_refreshed_at profile, refresh_anchor_at profile];
             base_candidates =
               (if base_candidates = [] \<and> created_at profile \<noteq> None
                then [created_at profile] else base_candidates)
         in if base_candidates = [] then False
            else
              (let due_base = Max (set (map the base_candidates));
                   due_at = due_base + timedelta_minutes (refresh_interval_minutes profile)
               in now \<ge> due_at)))"




section \<open>A fixture page and store\<close>

text \<open>
  The closed examples below run on one small document, in the style of the repository's
  tests. Node 0 is the document. Different item selectors pick different parts of it:
  \<open>.topic\<close> three articles with one link each, \<open>.dup\<close> two articles that link to the
  same address, \<open>.untitled\<close> one article whose link has no text, \<open>.group p\<close> one
  paragraph holding three links, \<open>.mixed\<close> an article followed by one that links to
  another host, \<open>.box\<close> a paragraph whose second link leaves the host, \<open>:scope\<close> the
  root element (node 10) and \<open>self\<close> nothing, no element of the page having that name.
  \<open>demo_urljoin\<close>, \<open>demo_scheme\<close> and \<open>demo_netloc\<close> agree with \<open>urllib.parse\<close> on
  the addresses of the fixture, and \<open>ascii_casefold\<close> with \<open>str.casefold\<close> on its texts.
  The extraction runs with 900 frames left on the interpreter's stack.
\<close>

definition demo_select :: "nat \<Rightarrow> string \<Rightarrow> nat list" where
  "demo_select node selector =
     (case map_of
        [((0, ''.topic''), [1, 2, 3]),
         ((0, ''.dup''), [4, 5]),
         ((0, ''.untitled''), [9]),
         ((0, ''.group p''), [6]),
         ((0, ''.mixed''), [1, 7]),
         ((0, ''.box''), [8]),
         ((0, '':scope''), [10]),
         ((10, ''a''), [11, 12, 13, 14, 15, 22, 16, 17, 18, 19, 20, 21]),
         ((1, ''a''), [11]), ((2, ''a''), [12]), ((3, ''a''), [13]),
         ((4, ''a''), [14]), ((5, ''a''), [15]),
         ((6, ''a''), [16, 17, 18]),
         ((7, ''a''), [19]),
         ((8, ''a''), [20, 21]),
         ((9, ''a''), [22])] (node, selector) of
        Some nodes \<Rightarrow> nodes
      | None \<Rightarrow> [])"

definition demo_href :: "nat \<Rightarrow> string option" where
  "demo_href node =
     map_of
       [(11, ''/forums/topic/1''), (12, ''/forums/topic/2''), (13, ''/forums/topic/3''),
        (14, ''/forums/topic/same''), (15, ''/forums/topic/same''),
        (16, ''/forums/topic/alpha''), (17, ''/forums/topic/beta''),
        (18, ''/forums/topic/gamma''),
        (19, ''https://evil.test/topic''),
        (20, ''/forums/topic/inside''), (21, ''https://evil.test/topic''),
        (22, ''https://evil.test/untitled'')] node"

definition demo_text :: "nat \<Rightarrow> string" where
  "demo_text node =
     (case map_of
        [(11, ''Package Alpha Premium''), (12, ''Package Beta Trial''),
         (13, ''Bundle Gamma Premium''),
         (14, ''Same Topic''), (15, ''Same Topic Again''),
         (16, ''Alpha Topic''), (17, ''Beta Topic''), (18, ''Gamma Topic''),
         (19, ''Elsewhere''), (20, ''Inside''), (21, ''Outside'')] node of
        Some text \<Rightarrow> text
      | None \<Rightarrow> [])"

definition demo_parent :: "nat \<Rightarrow> nat option" where
  "demo_parent node =
     map_of [(11, 1), (12, 2), (13, 3), (14, 4), (15, 5), (16, 6), (17, 6), (18, 6),
             (19, 7), (20, 8), (21, 8), (22, 9)] node"

definition demo_urljoin :: "string \<Rightarrow> string \<Rightarrow> string" where
  "demo_urljoin base href =
     (if startswith href ''https://'' then href else ''https://example.com'' @ href)"

definition demo_scheme :: "string \<Rightarrow> string" where
  "demo_scheme url = takeWhile (\<lambda>c. c \<noteq> CHR '':'') url"

definition demo_netloc :: "string \<Rightarrow> string" where
  "demo_netloc url =
     takeWhile (\<lambda>c. c \<noteq> CHR ''/'') (drop 3 (dropWhile (\<lambda>c. c \<noteq> CHR '':'') url))"

definition demo_env :: "nat env" where
  "demo_env =
     \<lparr>bs4_installed = True,
      fetch_html_http = (\<lambda>url. Inr ''<html>''),
      fetch_html_browser = (\<lambda>url. Inl (RuntimeError ''Browser mode failed: no browser'')),
      parse_document = (\<lambda>html. 0),
      select = demo_select,
      select_one = (\<lambda>node selector.
         case demo_select node selector of [] \<Rightarrow> None | first # _ \<Rightarrow> Some first),
      get_href = demo_href,
      get_text = demo_text,
      parent = demo_parent,
      contents = (\<lambda>node. demo_select node ''a''),
      node_name = (\<lambda>node. if 11 \<le> node then Some ''a''
                          else if node = 10 then Some ''html''
                          else if node = 6 \<or> node = 8 then Some ''p''
                          else if node = 0 then Some ''[document]''
                          else Some ''article''),
      has_get_text = (\<lambda>node. True),
      node_str = demo_text,
      node_eq = (\<lambda>a b. a = b),
      urljoin = demo_urljoin,
      url_scheme = demo_scheme,
      url_netloc = demo_netloc,
      str_casefold = ascii_casefold,
      bracket_matches = (\<lambda>stuff c. c \<in> set stuff),
      python_stack = \<lparr>frames_left = 900,
                      overflow_message = ''maximum recursion depth exceeded''\<rparr>\<rparr>"

text \<open>
  The same page when the site cannot be reached (\<open>urllib\<close>'s error, which
  \<open>fetch_html_http\<close> raises as a \<open>ValueError\<close>), when the response stops arriving while
  it is read (a \<open>TimeoutError\<close>, which \<open>fetch_html_http\<close> does not catch).
\<close>

definition offline_env :: "nat env" where
  "offline_env =
     demo_env\<lparr>fetch_html_http :=
       (\<lambda>url. Inl (ValueError ''Upstream connection error: timed out''))\<rparr>"


definition demo_config :: feed_request where
  "demo_config =
     \<lparr>feed_title = ''Forum Feed'', source_url = ''https://example.com/forum'',
      item_selector = ''.topic'', title_selector = ''a'', link_selector = ''a'',
      summary_selector = [], max_items = 10, refresh_interval_minutes = 60,
      fetch_mode = ''http'', filter_rules = [], exclude_filter_rules = []\<rparr>"

text \<open>\<open>init_db\<close> creates the two tables, empty.\<close>

definition init_db :: db where
  "init_db = \<lparr>profiles = [], feed_items = [], profile_seq = 0, item_seq = 0\<rparr>"

text \<open>
  A store with one profile, created at instant 1000 and refreshed once at 2000, and one
  stored item.
\<close>

definition demo_row :: profile_row where
  "demo_row =
     feed_request.extend demo_config
       (profile_row.fields 1 ''token-1'' True ''ok'' [] (Some 2000) (Some 2000) (Some 1000)
          (Some 2000))"

definition demo_item :: feed_item_row where
  "demo_item =
     \<lparr>item_id = 1, item_profile_id = 1, item_title = ''Old Topic'',
      item_link = ''https://example.com/forums/topic/old'', item_summary = [],
      discovered_at = 2000\<rparr>"

definition demo_db :: db where
  "demo_db = \<lparr>profiles = [demo_row], feed_items = [demo_item], profile_seq = 1, item_seq = 1\<rparr>"

definition demo_profile :: stored_profile where
  "demo_profile = profile_from_row demo_row 1"

definition other_config :: feed_request where
  "other_config =
     demo_config\<lparr>feed_title := ''Updated Feed'', source_url := ''https://example.com/new'',
       refresh_interval_minutes := 120, fetch_mode := ''browser''\<rparr>"

section \<open>Properties of the filter engine\<close>

lemma startswith_iff: "startswith s p \<longleftrightarrow> (\<exists>post. s = p @ post)"
  by (induction s p rule: startswith.induct) auto

lemma contains_iff: "contains s t \<longleftrightarrow> (\<exists>pre post. s = pre @ t @ post)"
proof (induction s)
  case Nil
  then show ?case by simp
next
  case (Cons c cs)
  show ?case
  proof
    assume "contains (c # cs) t"
    then consider "startswith (c # cs) t" | "contains cs t" by auto
    then show "\<exists>pre post. c # cs = pre @ t @ post"
    proof cases
      case 1
      then obtain post where "c # cs = t @ post" by (auto simp: startswith_iff)
      then have "c # cs = [] @ t @ post" by simp
      then show ?thesis by blast
    next
      case 2
      with Cons obtain pre post where "cs = pre @ t @ post" by auto
      then have "c # cs = (c # pre) @ t @ post" by simp
      then show ?thesis by blast
    qed
  next
    assume "\<exists>pre post. c # cs = pre @ t @ post"
    then obtain pre post where eq: "c # cs = pre @ t @ post" by auto
    show "contains (c # cs) t"
    proof (cases pre)
      case Nil
      with eq have "startswith (c # cs) t" by (auto simp: startswith_iff)
      then show ?thesis by simp
    next
      case (Cons p pre')
      with eq have "cs = pre' @ t @ post" by simp
      with Cons.IH have "contains cs t" by (auto simp: Cons.IH)
      then show ?thesis by simp
    qed
  qed
qed

lemma glob_match_lang: "glob_match B ps s \<longleftrightarrow> s \<in> glob_lang B ps"
proof (induction B ps s rule: glob_match.induct)
  case (3 B ps c cs)
  have "c # cs \<in> {u @ v | u v. v \<in> glob_lang B ps}
        \<longleftrightarrow> c # cs \<in> glob_lang B ps \<or> cs \<in> {u @ v | u v. v \<in> glob_lang B ps}"
  proof
    assume "c # cs \<in> {u @ v | u v. v \<in> glob_lang B ps}"
    then obtain u v where uv: "c # cs = u @ v" "v \<in> glob_lang B ps" by auto
    show "c # cs \<in> glob_lang B ps \<or> cs \<in> {u @ v | u v. v \<in> glob_lang B ps}"
    proof (cases u)
      case Nil
      with uv show ?thesis by simp
    next
      case (Cons a u')
      with uv have "cs = u' @ v" by simp
      with uv(2) show ?thesis by blast
    qed
  next
    assume "c # cs \<in> glob_lang B ps \<or> cs \<in> {u @ v | u v. v \<in> glob_lang B ps}"
    then show "c # cs \<in> {u @ v | u v. v \<in> glob_lang B ps}"
    proof
      assume "c # cs \<in> glob_lang B ps"
      then have "c # cs = [] @ (c # cs) \<and> c # cs \<in> glob_lang B ps" by simp
      then show ?thesis by blast
    next
      assume "cs \<in> {u @ v | u v. v \<in> glob_lang B ps}"
      then obtain u v where "cs = u @ v" "v \<in> glob_lang B ps" by auto
      then have "c # cs = (c # u) @ v \<and> v \<in> glob_lang B ps" by simp
      then show ?thesis by blast
    qed
  qed
  with 3 show ?case by simp
qed auto

inductive_cases shell_match_ConsE: "shell_match B (c # pat) s"
inductive_cases shell_match_NilE: "shell_match B [] s"

lemma translate_shell_match_nil: "s \<in> glob_lang B (translate []) \<longleftrightarrow> shell_match B [] s"
  by (auto intro: shell_match.intros elim: shell_match_NilE)


lemma shell_match_any:
  "shell_match B (CHR ''?'' # pat) s \<longleftrightarrow> (\<exists>c v. s = c # v \<and> shell_match B pat v)"
  by (auto intro: shell_match.intros elim: shell_match_ConsE)

lemma shell_match_class:
  "bracket_end pat = Some (stuff, rest) \<Longrightarrow>
   shell_match B (CHR ''['' # pat) s \<longleftrightarrow> (\<exists>c v. s = c # v \<and> B stuff c \<and> shell_match B rest v)"
  by (auto intro: shell_match.intros elim: shell_match_ConsE)

lemma shell_match_open:
  "bracket_end pat = None \<Longrightarrow>
   shell_match B (CHR ''['' # pat) s \<longleftrightarrow> (\<exists>v. s = CHR ''['' # v \<and> shell_match B pat v)"
  by (auto intro: shell_match.intros elim: shell_match_ConsE)

lemma shell_match_char:
  "c \<noteq> CHR ''*'' \<Longrightarrow> c \<noteq> CHR ''?'' \<Longrightarrow> c \<noteq> CHR ''['' \<Longrightarrow>
   shell_match B (c # pat) s \<longleftrightarrow> (\<exists>v. s = c # v \<and> shell_match B pat v)"
  by (auto intro: shell_match.intros elim: shell_match_ConsE)
lemma shell_match_star:
  "shell_match B (CHR ''*'' # pat) s \<longleftrightarrow> (\<exists>run v. s = run @ v \<and> shell_match B pat v)"
proof
  assume "shell_match B (CHR ''*'' # pat) s"
  then show "\<exists>run v. s = run @ v \<and> shell_match B pat v"
    by (rule shell_match_ConsE) (simp_all, blast)
next
  assume "\<exists>run v. s = run @ v \<and> shell_match B pat v"
  then show "shell_match B (CHR ''*'' # pat) s"
    by (auto intro: shell_match.intros)
qed

lemma translate_shell_match: "s \<in> glob_lang B (translate pat) \<longleftrightarrow> shell_match B pat s"
proof (induction pat arbitrary: s rule: translate.induct)
  case 1
  show ?case by (rule translate_shell_match_nil)
next
  case (2 c cs)
  show ?case
  proof (cases "c = CHR ''*''")
    case True
    with 2 show ?thesis by (simp add: shell_match_star)
  next
    case ns: False
    show ?thesis
    proof (cases "c = CHR ''?''")
      case True
      with 2 ns show ?thesis by (simp add: shell_match_any)
    next
      case nq: False
      show ?thesis
      proof (cases "c = CHR ''[''")
        case False
        with 2 ns nq show ?thesis by (simp add: shell_match_char)
      next
        case br: True
        show ?thesis
        proof (cases "bracket_end cs")
          case None
          with 2 ns nq br show ?thesis by (simp add: shell_match_open)
        next
          case (Some x)
          obtain stuff rest where x: "x = (stuff, rest)" by (cases x)
          with 2 ns nq br Some show ?thesis by (simp add: shell_match_class)
        qed
      qed
    qed
  qed
qed

lemma fnmatchcase_shell_match: "fnmatchcase B name pat \<longleftrightarrow> shell_match B pat name"
  by (simp add: fnmatchcase_def glob_match_lang translate_shell_match)

lemma endswith_pad: "t \<noteq> [] \<Longrightarrow> endswith (CHR ''*'' # t) ''*'' = endswith t ''*''"
  by (cases "rev t") (auto simp: endswith_def)

text \<open>
  C8. \<open>entry_matches_filter_term\<close> compares the case-folded term with the case-folded
  title, so that titles and terms with the same folded text match alike. A term that
  contains \<open>*\<close> or \<open>?\<close> after folding is matched as a shell pattern, padded with \<open>*\<close> in
  front unless it starts with \<open>*\<close> and at the end unless it ends with \<open>*\<close>: the folded
  title matches the padded pattern, \<open>*\<close> standing for any run of characters and \<open>?\<close> for
  exactly one. Any other term matches exactly when its folded text occurs inside the folded
  title. With a fold that lowers the letters of ASCII text, as \<open>str.casefold\<close> does,
  \<open>premium\<close> matches "Product Alpha Premium Edition" and not "Generic baseline package",
  and \<open>build-2?*\<close> matches "Toolkit build-21 candidate" and not "Toolkit build-2", where
  no character is left for the \<open>?\<close>.
\<close>

theorem filter_term_is_glob_or_substring:
  "entry_matches_filter_term F B entry term =
     (if CHR ''*'' \<in> set (F term) \<or> CHR ''?'' \<in> set (F term)
      then shell_match B
             ((if startswith (F term) ''*'' then [] else ''*'') @ F term
              @ (if endswith (F term) ''*'' then [] else ''*''))
             (F (title entry))
      else (\<exists>pre post. F (title entry) = pre @ F term @ post))
   \<and> (F (title e1) = F (title e2) \<and> F t1 = F t2
        \<longrightarrow> entry_matches_filter_term F B e1 t1 = entry_matches_filter_term F B e2 t2)
   \<and> ((\<forall>s. (\<forall>c \<in> set s. is_ascii c) \<longrightarrow> F s = ascii_casefold s) \<longrightarrow>
        entry_matches_filter_term F B
          \<lparr>title = ''Product Alpha Premium Edition'', link = l, summary = s, published_at = t\<rparr>
          ''premium''
        \<and> \<not> entry_matches_filter_term F B
          \<lparr>title = ''Generic baseline package'', link = l, summary = s, published_at = t\<rparr>
          ''premium''
        \<and> entry_matches_filter_term F B
          \<lparr>title = ''Toolkit build-21 candidate'', link = l, summary = s, published_at = t\<rparr>
          ''build-2?*''
        \<and> \<not> entry_matches_filter_term F B
          \<lparr>title = ''Toolkit build-2'', link = l, summary = s, published_at = t\<rparr>
          ''build-2?*'')"
proof (intro conjI impI)
  show "entry_matches_filter_term F B entry term =
     (if CHR ''*'' \<in> set (F term) \<or> CHR ''?'' \<in> set (F term)
      then shell_match B
             ((if startswith (F term) ''*'' then [] else ''*'') @ F term
              @ (if endswith (F term) ''*'' then [] else ''*''))
             (F (title entry))
      else (\<exists>pre post. F (title entry) = pre @ F term @ post))"
  proof (cases "CHR ''*'' \<in> set (F term) \<or> CHR ''?'' \<in> set (F term)")
    case True
    then have "F term \<noteq> []" by auto
    with True show ?thesis
      by (simp add: entry_matches_filter_term_def Let_def fnmatchcase_shell_match endswith_pad)
  next
    case False
    then show ?thesis
      by (simp add: entry_matches_filter_term_def Let_def contains_iff)
  qed
next
  assume "F (title e1) = F (title e2) \<and> F t1 = F t2"
  then show "entry_matches_filter_term F B e1 t1 = entry_matches_filter_term F B e2 t2"
    by (simp add: entry_matches_filter_term_def)
next
  assume a: "\<forall>s. (\<forall>c \<in> set s. is_ascii c) \<longrightarrow> F s = ascii_casefold s"
  have f: "F ''premium'' = ''premium''"
    "F ''build-2?*'' = ''build-2?*''"
    "F ''Product Alpha Premium Edition'' = ''product alpha premium edition''"
    "F ''Generic baseline package'' = ''generic baseline package''"
    "F ''Toolkit build-21 candidate'' = ''toolkit build-21 candidate''"
    "F ''Toolkit build-2'' = ''toolkit build-2''"
    using a by (simp_all add: is_ascii_def ascii_casefold_def ascii_casefold_char_def)
  show "entry_matches_filter_term F B
          \<lparr>title = ''Product Alpha Premium Edition'', link = l, summary = s, published_at = t\<rparr>
          ''premium''"
    by (simp add: entry_matches_filter_term_def f)
  show "\<not> entry_matches_filter_term F B
          \<lparr>title = ''Generic baseline package'', link = l, summary = s, published_at = t\<rparr>
          ''premium''"
    by (simp add: entry_matches_filter_term_def f)
  show "entry_matches_filter_term F B
          \<lparr>title = ''Toolkit build-21 candidate'', link = l, summary = s, published_at = t\<rparr>
          ''build-2?*''"
    by (simp add: entry_matches_filter_term_def f fnmatchcase_def endswith_def)
  show "\<not> entry_matches_filter_term F B
          \<lparr>title = ''Toolkit build-2'', link = l, summary = s, published_at = t\<rparr>
          ''build-2?*''"
    by (simp add: entry_matches_filter_term_def f fnmatchcase_def endswith_def)
qed

theorem filter_term_is_glob_or_substring_witness:
  "ascii_casefold ''ALPHA*'' = ascii_casefold ''alpha*''
   \<and> entry_matches_filter_term ascii_casefold (\<lambda>stuff c. c \<in> set stuff)
        \<lparr>title = ''Product Alpha Premium Edition'', link = [], summary = [], published_at = 0\<rparr>
        ''premium''
   \<and> \<not> entry_matches_filter_term ascii_casefold (\<lambda>stuff c. c \<in> set stuff)
        \<lparr>title = ''Toolkit build-2'', link = [], summary = [], published_at = 0\<rparr>
        ''build-2?*''
   \<and> entry_matches_filter_term ascii_casefold (\<lambda>stuff c. c \<in> set stuff)
        \<lparr>title = ''Product Alpha'', link = [], summary = [], published_at = 0\<rparr> ''ALPHA*''
       = entry_matches_filter_term ascii_casefold (\<lambda>stuff c. c \<in> set stuff)
           \<lparr>title = ''Product Alpha'', link = [], summary = [], published_at = 0\<rparr> ''alpha*''"
proof -
  have a: "\<forall>s. (\<forall>c \<in> set s. is_ascii c) \<longrightarrow> ascii_casefold s = ascii_casefold s" by simp
  have b: "ascii_casefold ''ALPHA*'' = ascii_casefold ''alpha*''" by code_simp
  let ?e = "\<lparr>title = ''Product Alpha'', link = [], summary = [], published_at = 0\<rparr>"
  show ?thesis
    using filter_term_is_glob_or_substring
      [where F = ascii_casefold and B = "\<lambda>stuff c. c \<in> set stuff" and ?e1.0 = ?e and ?e2.0 = ?e
         and ?t1.0 = "''ALPHA*''" and ?t2.0 = "''alpha*''" and l = "[]" and s = "[]" and t = 0]
      a b
    by blast
qed


section \<open>Properties of rule parsing\<close>

lemma tokenize_from_ValueError:
  "tokenize_from prev s = Inl e \<Longrightarrow> \<exists>msg. e = ValueError msg"
proof (induction prev s rule: tokenize_from.induct)
  case (1 prev s)
  let ?prev = "if is_space (hd s) then Some (last (takeWhile is_space s)) else prev"
  obtain tok rest where m: "match_token ?prev (dropWhile is_space s) = (tok, rest)"
    by (cases "match_token ?prev (dropWhile is_space s)")
  show ?case
  proof (cases "s = []")
    case True
    with "1.prems" show ?thesis by (subst (asm) tokenize_from.simps) simp
  next
    case ne: False
    show ?thesis
    proof (cases "dropWhile is_space s = []")
      case True
      with ne "1.prems" show ?thesis by (subst (asm) tokenize_from.simps) auto
    next
      case False
      from "1.prems" ne False m
      have "tokenize_from (Some (last (take (length s - length rest) s))) rest = Inl e"
        by (subst (asm) tokenize_from.simps) (auto split: sum.splits if_splits)
      with "1.IH" [OF ne False m [symmetric]] show ?thesis by simp
    qed
  qed
qed


lemma parse_error_class:
  "parse_or_expression msg1 k1 ts1 = Inl e \<Longrightarrow> (\<exists>m. e = ValueError m) \<or> e = RuntimeError msg1"
  "parse_or_loop msg2 k2 node2 ts2 = Inl e \<Longrightarrow> (\<exists>m. e = ValueError m) \<or> e = RuntimeError msg2"
  "parse_and_expression msg3 k3 ts3 = Inl e \<Longrightarrow> (\<exists>m. e = ValueError m) \<or> e = RuntimeError msg3"
  "parse_and_loop msg4 k4 node4 ts4 = Inl e \<Longrightarrow> (\<exists>m. e = ValueError m) \<or> e = RuntimeError msg4"
  "parse_primary msg5 k5 ts5 = Inl e \<Longrightarrow> (\<exists>m. e = ValueError m) \<or> e = RuntimeError msg5"
  by (induction msg1 k1 ts1 and msg2 k2 node2 ts2 and msg3 k3 ts3 and msg4 k4 node4 ts4
        and msg5 k5 ts5
      rule: parse_or_expression_parse_or_loop_parse_and_expression_parse_and_loop_parse_primary.induct)
     (auto simp: parse_or_expression.simps parse_and_expression.simps
       split: sum.splits prod.splits if_splits list.splits)

text \<open>
  Parsing an operand moves the reading of \<open>scan_tokens\<close> from "operand expected" to
  "operand complete" with the same parentheses open; the loops keep it there.
\<close>

lemma parse_scan:
  "parse_or_expression msg1 k1 ts1 = Inr (n1, r1)
     \<Longrightarrow> scan_tokens True d ts1 = scan_tokens False d r1"
  "parse_or_loop msg2 k2 node2 ts2 = Inr (n2, r2)
     \<Longrightarrow> scan_tokens False d ts2 = scan_tokens False d r2"
  "parse_and_expression msg3 k3 ts3 = Inr (n3, r3)
     \<Longrightarrow> scan_tokens True d ts3 = scan_tokens False d r3"
  "parse_and_loop msg4 k4 node4 ts4 = Inr (n4, r4)
     \<Longrightarrow> scan_tokens False d ts4 = scan_tokens False d r4"
  "parse_primary msg5 k5 ts5 = Inr (n5, r5)
     \<Longrightarrow> scan_tokens True d ts5 = scan_tokens False d r5"
proof (induction msg1 k1 ts1 and msg2 k2 node2 ts2 and msg3 k3 ts3 and msg4 k4 node4 ts4
        and msg5 k5 ts5
      arbitrary: n1 r1 d and n2 r2 d and n3 r3 d and n4 r4 d and n5 r5 d
      rule: parse_or_expression_parse_or_loop_parse_and_expression_parse_and_loop_parse_primary.induct)
  case (1 msg n ts)
  then show ?case
    by (auto simp: parse_or_expression.simps split: sum.splits prod.splits if_splits)
next
  case (2 msg n node)
  then show ?case by simp
next
  case (3 msg n node t ts)
  then show ?case
    by (cases t) (auto split: sum.splits prod.splits if_splits)
next
  case (4 msg n ts)
  then show ?case
    by (auto simp: parse_and_expression.simps split: sum.splits prod.splits if_splits)
next
  case (5 msg n node)
  then show ?case by simp
next
  case (6 msg n node t ts)
  then show ?case
    by (cases t) (auto split: sum.splits prod.splits if_splits)
next
  case (7 msg n)
  then show ?case by (simp split: if_splits)
next
  case (8 msg n s ts)
  then show ?case by (auto split: if_splits)
next
  case (9 msg n ts)
  from "9.prems" obtain node rest where
    n: "\<not> n < 3" and p: "parse_or_expression msg (n - 1) ts = Inr (node, T_RPAREN # r5)"
    by (auto split: sum.splits prod.splits if_splits list.splits)
  have "scan_tokens True (Suc d) ts = scan_tokens False (Suc d) (T_RPAREN # r5)"
    using "9.IH" [OF n p] .
  then show ?case by simp
next
  case (10 msg n ts)
  then show ?case by (simp split: if_splits)
next
  case (11 msg n ts)
  then show ?case by (simp split: if_splits)
next
  case (12 msg n ts)
  then show ?case by (simp split: if_splits)
qed

lemma strip_idem: "strip (strip s) = strip s"
proof -
  define t where "t = dropWhile is_space s"
  define u where "u = rev (dropWhile is_space (rev t))"
  have t: "t = [] \<or> \<not> is_space (hd t)"
    unfolding t_def using hd_dropWhile [of is_space s] by blast
  have "u @ rev (takeWhile is_space (rev t))
          = rev (takeWhile is_space (rev t) @ dropWhile is_space (rev t))"
    unfolding u_def by (simp only: rev_append)
  also have "\<dots> = rev (rev t)" by (simp only: takeWhile_dropWhile_id)
  finally have dec: "t = u @ rev (takeWhile is_space (rev t))" by simp
  have "u = [] \<or> \<not> is_space (hd u)"
  proof (cases "u = []")
    case False
    then have "hd u = hd t" "t \<noteq> []" using dec by (metis hd_append2, metis append_is_Nil_conv)
    with t show ?thesis by simp
  qed simp
  then have a: "dropWhile is_space u = u" by (auto simp: dropWhile_eq_self_iff)
  have "rev u = dropWhile is_space (rev t)" unfolding u_def by simp
  then have b: "dropWhile is_space (rev u) = rev u" by simp
  have "strip s = u" unfolding strip_def u_def t_def ..
  moreover have "strip u = u" unfolding strip_def a b by simp
  ultimately show ?thesis by simp
qed

lemma malformed_line_rejected:
  assumes "rule_shape line \<noteq> WellFormed"
  shows "\<exists>e. parse_filter_expression S (strip line) = Inl e
           \<and> ((\<exists>m. e = ValueError m) \<or> e = RuntimeError (overflow_message S))"
proof -
  let ?t = "strip line"
  from assms obtain tokens where
    ne: "?t \<noteq> []" and op: "search_operator None ?t"
    and tk: "tokenize_filter_expression ?t = Inr tokens"
    and sc: "scan_tokens True 0 tokens \<noteq> WellFormed"
    by (auto simp: rule_shape_def Let_def split: if_splits sum.splits)
  show ?thesis
  proof (cases "parse_or_expression (overflow_message S) (frames_left S) tokens")
    case (Inl e)
    with ne op tk parse_error_class(1) [OF Inl] show ?thesis
      by (simp add: parse_filter_expression_def strip_idem)
  next
    case (Inr r)
    obtain tree rest where r: "r = (tree, rest)" by (cases r)
    have "scan_tokens True 0 tokens = scan_tokens False 0 rest"
      using parse_scan(1) Inr r by blast
    with sc have "rest \<noteq> []" by auto
    with ne op tk Inr r show ?thesis
      by (simp add: parse_filter_expression_def strip_idem)
  qed
qed

lemma parse_filter_expression_error_class:
  "parse_filter_expression S rule = Inl e
     \<Longrightarrow> (\<exists>m. e = ValueError m) \<or> e = RuntimeError (overflow_message S)"
  by (auto simp: parse_filter_expression_def Let_def tokenize_filter_expression_def
      split: if_splits sum.splits prod.splits
      dest: tokenize_from_ValueError parse_error_class(1))

lemma parse_each_fails_iff:
  "(\<exists>e. parse_each S rules = Inl e)
     \<longleftrightarrow> (\<exists>rule \<in> set rules. \<exists>e. parse_filter_expression S rule = Inl e)"
  by (induction rules) (auto split: sum.splits)

lemma parse_each_error_class:
  "parse_each S rules = Inl e \<Longrightarrow> (\<exists>m. e = ValueError m) \<or> e = RuntimeError (overflow_message S)"
  by (induction rules) (auto split: sum.splits dest: parse_filter_expression_error_class)

lemma parse_filter_rules_error_class:
  "parse_filter_rules S rules = Inl e
     \<Longrightarrow> (\<exists>m. e = ValueError m) \<or> e = RuntimeError (overflow_message S)"
  unfolding parse_filter_rules_def by (rule parse_each_error_class)

lemma malformed_line_fails_rules:
  assumes "line \<in> set (splitlines rules)" and "rule_shape line \<noteq> WellFormed"
  shows "\<exists>e. parse_filter_rules S rules = Inl e"
proof -
  from assms(2) have "strip line \<noteq> []"
    by (auto simp: rule_shape_def Let_def split: if_splits)
  with assms(1) have "strip line \<in> set (parse_filter_rule_lines rules)"
    by (auto simp: parse_filter_rule_lines_def)
  moreover from malformed_line_rejected [OF assms(2)]
  have "\<exists>e. parse_filter_expression S (strip line) = Inl e" by blast
  ultimately have "\<exists>e. parse_each S (parse_filter_rule_lines rules) = Inl e"
    unfolding parse_each_fails_iff by blast
  then show ?thesis by (simp add: parse_filter_rules_def)
qed

lemma parse_rest_le:
  "parse_or_expression msg1 k1 ts1 = Inr (n1, r1) \<Longrightarrow> length r1 \<le> length ts1"
  "parse_or_loop msg2 k2 node2 ts2 = Inr (n2, r2) \<Longrightarrow> length r2 \<le> length ts2"
  "parse_and_expression msg3 k3 ts3 = Inr (n3, r3) \<Longrightarrow> length r3 \<le> length ts3"
  "parse_and_loop msg4 k4 node4 ts4 = Inr (n4, r4) \<Longrightarrow> length r4 \<le> length ts4"
  "parse_primary msg5 k5 ts5 = Inr (n5, r5) \<Longrightarrow> length r5 \<le> length ts5"
  by (induction msg1 k1 ts1 and msg2 k2 node2 ts2 and msg3 k3 ts3 and msg4 k4 node4 ts4
        and msg5 k5 ts5
      arbitrary: n1 r1 and n2 r2 and n3 r3 and n4 r4 and n5 r5
      rule: parse_or_expression_parse_or_loop_parse_and_expression_parse_and_loop_parse_primary.induct)
     (fastforce simp: parse_or_expression.simps parse_and_expression.simps
        split: sum.splits prod.splits if_splits list.splits)+

text \<open>With three frames for each token and five more, the parser does not run out of frames.\<close>

lemma parse_enough_frames:
  "parse_or_expression msg1 k1 ts1 = Inl e \<Longrightarrow> 3 * length ts1 + 5 \<le> k1
     \<Longrightarrow> \<exists>m. e = ValueError m"
  "parse_or_loop msg2 k2 node2 ts2 = Inl e \<Longrightarrow> 3 * length ts2 + 1 \<le> k2
     \<Longrightarrow> \<exists>m. e = ValueError m"
  "parse_and_expression msg3 k3 ts3 = Inl e \<Longrightarrow> 3 * length ts3 + 4 \<le> k3
     \<Longrightarrow> \<exists>m. e = ValueError m"
  "parse_and_loop msg4 k4 node4 ts4 = Inl e \<Longrightarrow> 3 * length ts4 \<le> k4
     \<Longrightarrow> \<exists>m. e = ValueError m"
  "parse_primary msg5 k5 ts5 = Inl e \<Longrightarrow> 3 * length ts5 + 3 \<le> k5
     \<Longrightarrow> \<exists>m. e = ValueError m"
proof (induction msg1 k1 ts1 and msg2 k2 node2 ts2 and msg3 k3 ts3 and msg4 k4 node4 ts4
        and msg5 k5 ts5
      rule: parse_or_expression_parse_or_loop_parse_and_expression_parse_and_loop_parse_primary.induct)
  case (1 msg n ts)
  have n: "n \<noteq> 0" using "1.prems" by simp
  show ?case
  proof (cases "parse_and_expression msg (n - 1) ts")
    case (Inl e')
    with "1.prems" n have "e' = e" by (simp add: parse_or_expression.simps)
    with "1.IH"(1) [OF n] Inl "1.prems"(2) show ?thesis by simp
  next
    case (Inr r)
    obtain node rest where r: "r = (node, rest)" by (cases r)
    have "length rest \<le> length ts" using parse_rest_le(3) Inr r by blast
    with "1.prems"(2) have b: "3 * length rest + 1 \<le> n - 1" by simp
    from "1.prems"(1) n Inr r have "parse_or_loop msg (n - 1) node rest = Inl e"
      by (simp add: parse_or_expression.simps)
    with "1.IH"(2) [OF n Inr [unfolded r] refl _ b] show ?thesis by simp
  qed
next
  case (2 msg n node)
  then show ?case by simp
next
  case (3 msg n node t ts)
  from "3.prems"(1) have t: "t = T_OR" by (simp split: if_splits)
  show ?case
  proof (cases "parse_and_expression msg n ts")
    case (Inl e')
    with "3.prems" t have "e' = e" by simp
    with "3.IH"(1) [OF t] Inl "3.prems"(2) show ?thesis by simp
  next
    case (Inr r)
    obtain rhs rest where r: "r = (rhs, rest)" by (cases r)
    have "length rest \<le> length ts" using parse_rest_le(3) Inr r by blast
    with "3.prems"(2) have b: "3 * length rest + 1 \<le> n" by simp
    from "3.prems"(1) t Inr r have "parse_or_loop msg n (Or node rhs) rest = Inl e" by simp
    with "3.IH"(2) [OF t Inr [unfolded r] refl _ b] show ?thesis by simp
  qed
next
  case (4 msg n ts)
  have n: "n \<noteq> 0" using "4.prems" by simp
  show ?case
  proof (cases "parse_primary msg (n - 1) ts")
    case (Inl e')
    with "4.prems" n have "e' = e" by (simp add: parse_and_expression.simps)
    with "4.IH"(1) [OF n] Inl "4.prems"(2) show ?thesis by simp
  next
    case (Inr r)
    obtain node rest where r: "r = (node, rest)" by (cases r)
    have "length rest \<le> length ts" using parse_rest_le(5) Inr r by blast
    with "4.prems"(2) have b: "3 * length rest \<le> n - 1" by simp
    from "4.prems"(1) n Inr r have "parse_and_loop msg (n - 1) node rest = Inl e"
      by (simp add: parse_and_expression.simps)
    with "4.IH"(2) [OF n Inr [unfolded r] refl _ b] show ?thesis by simp
  qed
next
  case (5 msg n node)
  then show ?case by simp
next
  case (6 msg n node t ts)
  from "6.prems"(1) have t: "t = T_AND" by (simp split: if_splits)
  show ?case
  proof (cases "parse_primary msg n ts")
    case (Inl e')
    with "6.prems" t have "e' = e" by simp
    with "6.IH"(1) [OF t] Inl "6.prems"(2) show ?thesis by simp
  next
    case (Inr r)
    obtain rhs rest where r: "r = (rhs, rest)" by (cases r)
    have "length rest \<le> length ts" using parse_rest_le(5) Inr r by blast
    with "6.prems"(2) have b: "3 * length rest \<le> n" by simp
    from "6.prems"(1) t Inr r have "parse_and_loop msg n (And node rhs) rest = Inl e" by simp
    with "6.IH"(2) [OF t Inr [unfolded r] refl _ b] show ?thesis by simp
  qed
next
  case (7 msg n)
  then show ?case by (auto split: if_splits)
next
  case (8 msg n s ts)
  then show ?case by (auto split: if_splits)
next
  case (9 msg n ts)
  have n: "\<not> n < 3" using "9.prems" by simp
  show ?case
  proof (cases "parse_or_expression msg (n - 1) ts")
    case (Inl e')
    with "9.prems" n have "e' = e" by simp
    with "9.IH" [OF n] Inl "9.prems"(2) show ?thesis by simp
  next
    case (Inr r)
    with "9.prems"(1) n show ?thesis
      by (auto split: prod.splits list.splits if_splits)
  qed
next
  case (10 msg n ts)
  then show ?case by (auto split: if_splits)
next
  case (11 msg n ts)
  then show ?case by (auto split: if_splits)
next
  case (12 msg n ts)
  then show ?case by (auto split: if_splits)
qed

lemma match_token_shorter:
  assumes "s \<noteq> []" and "\<not> is_space (hd s)" and "match_token prev s = (tok, rest)"
  shows "length rest < length s"
proof -
  obtain c cs where cs: "s = c # cs" using assms(1) by (cases s) auto
  with assms(2) have c: "\<not> is_space c" by simp
  let ?t = "dropWhile (\<lambda>x. x \<noteq> c) cs"
  have q: "length (tl ?t) \<le> length cs"
    using length_dropWhile_le [of "\<lambda>x. x \<noteq> c" cs] by simp
  have t: "c \<noteq> CHR ''('' \<Longrightarrow> c \<noteq> CHR '')'' \<Longrightarrow> length (dropWhile is_term_char (c # cs)) \<le> length cs"
    using c length_dropWhile_le [of is_term_char cs] by (simp add: is_term_char_def)
  show ?thesis
    using assms(3) q t unfolding cs match_token_def Let_def
    by (auto split: if_splits)
qed

lemma tokenize_from_length:
  "tokenize_from prev s = Inr tokens \<Longrightarrow> length tokens \<le> length s"
proof (induction prev s arbitrary: tokens rule: tokenize_from.induct)
  case (1 prev s)
  let ?prev = "if is_space (hd s) then Some (last (takeWhile is_space s)) else prev"
  obtain tok rest where m: "match_token ?prev (dropWhile is_space s) = (tok, rest)"
    by (cases "match_token ?prev (dropWhile is_space s)")
  show ?case
  proof (cases "s = []")
    case True
    with "1.prems" show ?thesis by (subst (asm) tokenize_from.simps) simp
  next
    case ne: False
    show ?thesis
    proof (cases "dropWhile is_space s = []")
      case True
      with ne "1.prems" show ?thesis by (subst (asm) tokenize_from.simps) auto
    next
      case False
      from "1.prems" ne False m obtain tokens' where
        t: "tokenize_from (Some (last (take (length s - length rest) s))) rest = Inr tokens'"
        and tk: "tokens = tok # tokens'"
        by (subst (asm) tokenize_from.simps) (auto split: sum.splits if_splits)
      have "length tokens' \<le> length rest"
        by (rule "1.IH" [OF ne False m [symmetric] t])
      moreover have "length rest < length (dropWhile is_space s)"
        using match_token_shorter [OF False hd_dropWhile [OF False] m] .
      moreover have "length (dropWhile is_space s) \<le> length s" by (rule length_dropWhile_le)
      ultimately show ?thesis using tk by simp
    qed
  qed
qed

lemma length_strip_le: "length (strip s) \<le> length s"
proof -
  have "length (strip s) \<le> length (dropWhile is_space s)"
    unfolding strip_def using length_dropWhile_le [of is_space "rev (dropWhile is_space s)"]
    by simp
  also have "\<dots> \<le> length s" by (rule length_dropWhile_le)
  finally show ?thesis .
qed

lemma parse_filter_expression_enough_frames:
  assumes "parse_filter_expression S rule = Inl e"
    and "3 * length rule + 5 \<le> frames_left S"
  shows "\<exists>m. e = ValueError m"
proof (cases "strip rule \<noteq> [] \<and> search_operator None (strip rule)")
  case False
  with assms(1) show ?thesis
    by (auto simp: parse_filter_expression_def Let_def split: if_splits)
next
  case True
  show ?thesis
  proof (cases "tokenize_filter_expression (strip rule)")
    case (Inl e')
    with True assms(1) have "e' = e" by (simp add: parse_filter_expression_def)
    with Inl show ?thesis
      by (auto simp: tokenize_filter_expression_def dest: tokenize_from_ValueError)
  next
    case (Inr tokens)
    then have "length tokens \<le> length (strip rule)"
      by (auto simp: tokenize_filter_expression_def dest: tokenize_from_length)
    with length_strip_le [of rule] assms(2)
    have b: "3 * length tokens + 5 \<le> frames_left S" by simp
    show ?thesis
    proof (cases "parse_or_expression (overflow_message S) (frames_left S) tokens")
      case (Inl e')
      with True Inr assms(1) have "e' = e" by (simp add: parse_filter_expression_def)
      with parse_enough_frames(1) [OF Inl b] show ?thesis by simp
    next
      case r: (Inr r)
      with True Inr assms(1) show ?thesis
        by (auto simp: parse_filter_expression_def split: prod.splits if_splits)
    qed
  qed
qed

lemma parse_filter_rules_enough_frames:
  assumes "parse_filter_rules S rules = Inl e"
    and "\<forall>line \<in> set (splitlines rules). 3 * length line + 5 \<le> frames_left S"
  shows "\<exists>m. e = ValueError m"
proof -
  have "\<forall>rule \<in> set (parse_filter_rule_lines rules). 3 * length rule + 5 \<le> frames_left S"
  proof
    fix rule assume "rule \<in> set (parse_filter_rule_lines rules)"
    then obtain line where "line \<in> set (splitlines rules)" "rule = strip line"
      by (auto simp: parse_filter_rule_lines_def)
    with assms(2) length_strip_le [of line] show "3 * length rule + 5 \<le> frames_left S"
      by fastforce
  qed
  moreover have "parse_each S rs = Inl e
      \<Longrightarrow> \<forall>rule \<in> set rs. 3 * length rule + 5 \<le> frames_left S \<Longrightarrow> \<exists>m. e = ValueError m" for rs
    by (induction rs)
       (auto split: sum.splits dest: parse_filter_expression_enough_frames)
  ultimately show ?thesis using assms(1) by (simp add: parse_filter_rules_def)
qed

text \<open>
  C1, amended. A rule line is malformed when its tokens have unbalanced parentheses (as in
  \<open>(alpha OR premium\<close>), an operand position with no term, or trailing tokens; quoted text
  is one term. When the include or exclude rule text contains such a line,
  \<open>extract_feed_entries\<close> returns no entries: it fails. It does not fail before the
  network is used: the rules are parsed only after the page has been fetched and the item
  nodes matched, so whenever the document parser is available exactly one fetch of the
  source address has been sent. When that fetch succeeds and the item selector matches a
  node, the failure is a \<open>ValueError\<close> of the parser, or the \<open>RecursionError\<close> of a rule
  nested deeper than the interpreter's stack allows; it is a \<open>ValueError\<close> whenever the
  stack has three frames for each character of the longest rule line and five more.
\<close>

theorem malformed_rule_fails_after_fetch:
  assumes "line \<in> set (splitlines (filter_rules config))
             \<union> set (splitlines (exclude_filter_rules config))"
    and "rule_shape line \<in> {UnbalancedParentheses, EmptyTerm, TrailingTokens}"
  shows "(\<exists>err. snd (extract_feed_entries E config now) = Inl err)
     \<and> (bs4_installed E \<longrightarrow>
          fst (extract_feed_entries E config now)
            = [Fetch (source_url config) (fetch_mode config)])
     \<and> (bs4_installed E
          \<and> fetch_html E (source_url config) (fetch_mode config) = Inr html
          \<and> select E (parse_document E html) (item_selector config) \<noteq> []
          \<longrightarrow> ((\<exists>msg. snd (extract_feed_entries E config now) = Inl (ValueError msg))
                \<or> snd (extract_feed_entries E config now)
                    = Inl (RuntimeError (overflow_message (python_stack E))))
              \<and> ((\<forall>l \<in> set (splitlines (filter_rules config))
                           \<union> set (splitlines (exclude_filter_rules config)).
                      3 * length l + 5 \<le> frames_left (python_stack E))
                   \<longrightarrow> (\<exists>msg. snd (extract_feed_entries E config now)
                                 = Inl (ValueError msg))))"
proof -
  let ?S = "python_stack E"
  let ?inc = "parse_filter_rules ?S (filter_rules config)"
  let ?exc = "parse_filter_rules ?S (exclude_filter_rules config)"
  have bad: "rule_shape line \<noteq> WellFormed" using assms(2) by auto
  have "(\<exists>e. ?inc = Inl e) \<or> (\<exists>e. ?exc = Inl e)"
    using assms(1) malformed_line_fails_rules [OF _ bad, of _ ?S] by blast
  then obtain e where e: "?inc = Inl e \<or> (\<exists>inc. ?inc = Inr inc) \<and> ?exc = Inl e"
    by (cases ?inc) auto
  then have cls: "(\<exists>m. e = ValueError m) \<or> e = RuntimeError (overflow_message ?S)"
    by (auto dest: parse_filter_rules_error_class)
  have enough: "\<exists>m. e = ValueError m"
    if "\<forall>l \<in> set (splitlines (filter_rules config))
               \<union> set (splitlines (exclude_filter_rules config)).
          3 * length l + 5 \<le> frames_left ?S"
    using e that by (auto dest: parse_filter_rules_enough_frames)
  have res: "snd (extract_feed_entries E config now) = Inl e"
    if "bs4_installed E" "fetch_html E (source_url config) (fetch_mode config) = Inr html"
      "select E (parse_document E html) (item_selector config) \<noteq> []"
    using e that by (auto simp: extract_feed_entries_def Let_def)
  have fails: "\<exists>err. snd (extract_feed_entries E config now) = Inl err"
    using e by (auto simp: extract_feed_entries_def Let_def split: sum.splits)
  have sent: "fst (extract_feed_entries E config now)
                = [Fetch (source_url config) (fetch_mode config)]" if "bs4_installed E"
    using that by (auto simp: extract_feed_entries_def Let_def split: sum.splits)
  show ?thesis
    using fails sent res cls enough by auto
qed

theorem malformed_rule_fails_after_fetch_witness:
  "''(alpha OR premium''
     \<in> set (splitlines (filter_rules (demo_config\<lparr>filter_rules := ''(alpha OR premium''\<rparr>)))
   \<and> rule_shape ''(alpha OR premium'' = UnbalancedParentheses
   \<and> bs4_installed demo_env
   \<and> fetch_html demo_env ''https://example.com/forum'' ''http'' = Inr ''<html>''
   \<and> select demo_env (parse_document demo_env ''<html>'') ''.topic'' \<noteq> []
   \<and> splitlines ''(alpha OR premium'' = [''(alpha OR premium''] \<and> splitlines [] = []
   \<and> 3 * length ''(alpha OR premium'' + 5 \<le> frames_left (python_stack demo_env)
   \<and> fst (extract_feed_entries demo_env (demo_config\<lparr>filter_rules := ''(alpha OR premium''\<rparr>) 5000)
       = [Fetch ''https://example.com/forum'' ''http'']
   \<and> (\<exists>msg. snd (extract_feed_entries demo_env
                   (demo_config\<lparr>filter_rules := ''(alpha OR premium''\<rparr>) 5000)
               = Inl (ValueError msg))"
proof -
  let ?c = "demo_config\<lparr>filter_rules := ''(alpha OR premium''\<rparr>"
  have h1: "''(alpha OR premium'' \<in> set (splitlines (filter_rules ?c))
             \<union> set (splitlines (exclude_filter_rules ?c))"
    by code_simp
  have h1': "''(alpha OR premium'' \<in> set (splitlines (filter_rules ?c))" by code_simp
  have sh: "rule_shape ''(alpha OR premium'' = UnbalancedParentheses" by code_simp
  then have h2: "rule_shape ''(alpha OR premium''
                   \<in> {UnbalancedParentheses, EmptyTerm, TrailingTokens}" by simp
  have b: "bs4_installed demo_env" by code_simp
  have u: "source_url ?c = ''https://example.com/forum''" "fetch_mode ?c = ''http''"
    "item_selector ?c = ''.topic''" "filter_rules ?c = ''(alpha OR premium''"
    "exclude_filter_rules ?c = []"
    by code_simp+
  have f: "fetch_html demo_env ''https://example.com/forum'' ''http'' = Inr ''<html>''"
    by code_simp
  have s: "select demo_env (parse_document demo_env ''<html>'') ''.topic'' \<noteq> []" by code_simp
  have l: "\<forall>l \<in> set (splitlines ''(alpha OR premium'') \<union> set (splitlines []).
         3 * length l + 5 \<le> frames_left (python_stack demo_env)" by code_simp
  from malformed_rule_fails_after_fetch [OF h1 h2, of demo_env 5000 "''<html>''"]
  have "fst (extract_feed_entries demo_env ?c 5000) = [Fetch ''https://example.com/forum'' ''http'']
     \<and> (\<exists>msg. snd (extract_feed_entries demo_env ?c 5000) = Inl (ValueError msg))"
    using b f s l unfolding u by blast
  moreover have "splitlines ''(alpha OR premium'' = [''(alpha OR premium''] \<and> splitlines [] = []
      \<and> 3 * length ''(alpha OR premium'' + 5 \<le> frames_left (python_stack demo_env)"
    by code_simp
  ultimately show ?thesis using h1' sh b f s by blast
qed

text \<open>
  C1 as stated fails. With the rule \<open>(alpha OR premium\<close> the extraction on the fixture
  page has sent the fetch of the source address before it raises the rule's \<open>ValueError\<close>,
  and when the site cannot be reached the error raised is the fetch's, the rule text never
  being looked at. A rule that opens 299 parentheses exhausts the 900 frames of the fixture
  and fails with \<open>RecursionError\<close>, not \<open>ValueError\<close>. A parenthesis inside quotes is
  balanced by nothing and a pair of quotes holds an empty term, yet both rules parse.
\<close>

theorem malformed_rule_is_parsed_after_fetch:
  "rule_shape ''(alpha OR premium'' = UnbalancedParentheses
   \<and> extract_feed_entries demo_env (demo_config\<lparr>filter_rules := ''(alpha OR premium''\<rparr>) 5000
       = ([Fetch ''https://example.com/forum'' ''http''],
          Inl (ValueError ''Incomplete filter expression.''))
   \<and> extract_feed_entries offline_env (demo_config\<lparr>filter_rules := ''(alpha OR premium''\<rparr>)
         5000
       = ([Fetch ''https://example.com/forum'' ''http''],
          Inl (ValueError ''Upstream connection error: timed out''))
   \<and> rule_shape (replicate 299 CHR ''('' @ ''alpha'') = UnbalancedParentheses
   \<and> extract_feed_entries demo_env
         (demo_config\<lparr>filter_rules := replicate 299 CHR ''('' @ ''alpha''\<rparr>) 5000
       = ([Fetch ''https://example.com/forum'' ''http''],
          Inl (RuntimeError ''maximum recursion depth exceeded''))
   \<and> parse_filter_expression (python_stack demo_env) (CHR 0x22 # ''('' @ CHR 0x22 # '' OR alpha'')
       = Inr (Or (Term ''('') (Term ''alpha''))
   \<and> parse_filter_expression (python_stack demo_env) (CHR 0x22 # CHR 0x22 # '' OR alpha'')
       = Inr (Or (Term []) (Term ''alpha''))"
  by code_simp


section \<open>Properties of the extraction passes\<close>

lemma item_nodes_loop_invariant:
  assumes "item_nodes_loop E config now inc exc nodes acc = Inr es"
    and "list_all (accepted E inc exc) acc"
    and "acc = [] \<or> int (length acc) < max_items config"
    and "1 \<le> max_items config"
  shows "list_all (accepted E inc exc) es \<and> int (length es) \<le> max_items config
         \<and> length acc \<le> length es"
  using assms
proof (induction nodes arbitrary: acc)
  case Nil
  then show ?case by auto
next
  case (Cons node nodes)
  show ?case
  proof (cases "build_entry_from_nodes E node
             (select_node_with_scope E node (title_selector config))
             (select_node_with_scope E node (link_selector config)) None config now")
    case (Inl e)
    with Cons.prems show ?thesis by simp
  next
    case (Inr r)
    show ?thesis
    proof (cases r)
      case None
      with Inr Cons show ?thesis by simp
    next
      case (Some entry)
      show ?thesis
      proof (cases "accepted E inc exc entry")
        case False
        with Inr Some Cons.prems have "item_nodes_loop E config now inc exc nodes acc = Inr es"
          by (auto simp: accepted_def split: if_splits)
        with Cons show ?thesis by simp
      next
        case True
        show ?thesis
        proof (cases "int (length (acc @ [entry])) \<ge> max_items config")
          case stop: True
          with Inr Some True Cons.prems have "es = acc @ [entry]"
            by (auto simp: accepted_def split: if_splits)
          with Cons.prems True show ?thesis by auto
        next
          case go: False
          with Inr Some True Cons.prems
          have a: "item_nodes_loop E config now inc exc nodes (acc @ [entry]) = Inr es"
            by (auto simp: accepted_def split: if_splits)
          have b: "list_all (accepted E inc exc) (acc @ [entry])"
            using Cons.prems True by simp
          have c: "acc @ [entry] = [] \<or> int (length (acc @ [entry])) < max_items config"
            using go by simp
          have "list_all (accepted E inc exc) es \<and> int (length es) \<le> max_items config
              \<and> length (acc @ [entry]) \<le> length es"
            by (rule Cons.IH [OF a b c Cons.prems(4)])
          then show ?thesis by simp
        qed
      qed
    qed
  qed
qed

lemma link_collections_loop_invariant:
  assumes "link_collections_loop E config now inc exc pairs seen acc = Inr es"
    and "list_all (accepted E inc exc) acc"
    and "acc = [] \<or> int (length acc) < max_items config"
    and "1 \<le> max_items config"
    and "distinct (map link acc)" and "set (map link acc) \<subseteq> seen"
  shows "list_all (accepted E inc exc) es \<and> int (length es) \<le> max_items config
         \<and> distinct (map link es)"
  using assms
proof (induction pairs arbitrary: acc seen)
  case Nil
  then show ?case by auto
next
  case (Cons pair pairs)
  obtain node link_node where pair: "pair = (node, link_node)" by (cases pair)
  show ?case
  proof (cases "build_entry_from_nodes E node
             (Some (resolve_repeated_link_title_node E link_node config)) (Some link_node)
             (extract_repeated_link_title_text E node link_node
                (resolve_repeated_link_title_node E link_node config) config)
             config now")
    case (Inl e)
    with Cons.prems pair show ?thesis by simp
  next
    case (Inr r)
    show ?thesis
    proof (cases r)
      case None
      with Inr Cons pair show ?thesis by simp
    next
      case (Some entry)
      show ?thesis
      proof (cases "link entry \<notin> seen \<and> accepted E inc exc entry")
        case False
        with Inr Some Cons.prems pair
        have "link_collections_loop E config now inc exc pairs seen acc = Inr es"
          by (auto simp: accepted_def split: if_splits)
        with Cons show ?thesis by simp
      next
        case True
        then have fresh: "link entry \<notin> set (map link acc)" using Cons.prems(6) by auto
        show ?thesis
        proof (cases "int (length (acc @ [entry])) \<ge> max_items config")
          case stop: True
          with Inr Some True Cons.prems pair have "es = acc @ [entry]"
            by (auto simp: accepted_def split: if_splits)
          with Cons.prems True fresh show ?thesis by auto
        next
          case go: False
          with Inr Some True Cons.prems pair
          have a: "link_collections_loop E config now inc exc pairs (insert (link entry) seen)
                  (acc @ [entry]) = Inr es"
            by (auto simp: accepted_def split: if_splits)
          have b: "list_all (accepted E inc exc) (acc @ [entry])"
            using Cons.prems True by simp
          have c: "acc @ [entry] = [] \<or> int (length (acc @ [entry])) < max_items config"
            using go by simp
          have d: "distinct (map link (acc @ [entry]))"
            using Cons.prems(5) fresh by simp
          have e: "set (map link (acc @ [entry])) \<subseteq> insert (link entry) seen"
            using Cons.prems(6) by auto
          show ?thesis
            by (rule Cons.IH [OF a b c Cons.prems(4) d e])
        qed
      qed
    qed
  qed
qed

lemma apply_entry_filters_accepted:
  "list_all (accepted E inc exc) es \<Longrightarrow> apply_entry_filters (str_casefold E) (bracket_matches E) es inc exc = es"
  by (auto simp: apply_entry_filters_def accepted_def list_all_iff filter_id_conv)

lemma slice_to_all: "int (length xs) \<le> k \<Longrightarrow> slice_to xs k = xs"
  by (auto simp: slice_to_def)

lemma should_use_container_link_fallback_iff:
  "should_use_container_link_fallback E nodes entries config \<longleftrightarrow>
     length entries \<le> 1
     \<and> (\<exists>node \<in> set nodes. 1 < length (select_nodes_with_scope E node (link_selector config)))"
  by (auto simp: should_use_container_link_fallback_def list_ex_iff)


lemma extract_feed_entries_after_primary:
  assumes "bs4_installed E"
    and "fetch_html E (source_url config) (fetch_mode config) = Inr html"
    and "select E (parse_document E html) (item_selector config) = nodes"
    and "nodes \<noteq> []"
    and "parse_filter_rules (python_stack E) (filter_rules config) = Inr inc"
    and "parse_filter_rules (python_stack E) (exclude_filter_rules config) = Inr exc"
    and "extract_entries_from_item_nodes E nodes config now inc exc = Inr entries"
  shows "snd (extract_feed_entries E config now) =
     (case (if should_use_container_link_fallback E nodes entries config then
              (case extract_entries_from_link_collections E nodes config now inc exc of
                 Inl e \<Rightarrow> Inl e
               | Inr container_entries \<Rightarrow>
                   Inr (if length container_entries > length entries
                        then container_entries else entries))
            else Inr entries) of
        Inl e \<Rightarrow> Inl e
      | Inr entries' \<Rightarrow>
          if entries' = [] then
            Inl (ValueError ''Matched nodes did not contain usable titles and links.'')
          else Inr (slice_to (apply_entry_filters (str_casefold E) (bracket_matches E) entries' inc exc)
                      (max_items config)))"
  using assms by (simp add: extract_feed_entries_def Let_def)

text \<open>
  C5. Once the page is fetched, item nodes are matched, both rule texts parse and the
  primary pass returns its entries, with \<open>max_items\<close> at least 1 (its range is 1 to 100):
  the link-expansion pass is used exactly when the primary pass produced at most one entry
  and some item node has more than one node under \<open>link_selector\<close>. When it is not used,
  the outcome is decided by the primary entries alone. When it is used, its failure is the
  failure of the extraction, and its entries replace the primary ones only if they are
  strictly more. So whenever the extraction succeeds, it returns at least as many entries
  as the primary pass produced.
\<close>

theorem link_fallback_gate_and_count:
  assumes "bs4_installed E"
    and "fetch_html E (source_url config) (fetch_mode config) = Inr html"
    and "select E (parse_document E html) (item_selector config) = nodes"
    and "nodes \<noteq> []"
    and "parse_filter_rules (python_stack E) (filter_rules config) = Inr inc"
    and "parse_filter_rules (python_stack E) (exclude_filter_rules config) = Inr exc"
    and "extract_entries_from_item_nodes E nodes config now inc exc = Inr entries"
    and "1 \<le> max_items config"
  shows "(should_use_container_link_fallback E nodes entries config \<longleftrightarrow>
            length entries \<le> 1
            \<and> (\<exists>node \<in> set nodes.
                  1 < length (select_nodes_with_scope E node (link_selector config))))
     \<and> snd (extract_feed_entries E config now) =
         (if length entries \<le> 1
             \<and> (\<exists>node \<in> set nodes.
                   1 < length (select_nodes_with_scope E node (link_selector config)))
          then
            (case extract_entries_from_link_collections E nodes config now inc exc of
               Inl e \<Rightarrow> Inl e
             | Inr container_entries \<Rightarrow>
                 if length container_entries > length entries then Inr container_entries
                 else if entries = [] then
                   Inl (ValueError ''Matched nodes did not contain usable titles and links.'')
                 else Inr entries)
          else if entries = [] then
            Inl (ValueError ''Matched nodes did not contain usable titles and links.'')
          else Inr entries)
     \<and> (\<forall>result. snd (extract_feed_entries E config now) = Inr result
            \<longrightarrow> length entries \<le> length result)"
proof -
  define gate where "gate \<longleftrightarrow> length entries \<le> 1
     \<and> (\<exists>node \<in> set nodes. 1 < length (select_nodes_with_scope E node (link_selector config)))"
  let ?empty = "Inl (ValueError ''Matched nodes did not contain usable titles and links.'')
                  :: error + feed_entry list"
  have su: "should_use_container_link_fallback E nodes entries config \<longleftrightarrow> gate"
    unfolding gate_def by (rule should_use_container_link_fallback_iff)
  have prim: "list_all (accepted E inc exc) entries \<and> int (length entries) \<le> max_items config"
    using item_nodes_loop_invariant [of E config now inc exc nodes "[]" entries] assms(7,8)
    by (simp add: extract_entries_from_item_nodes_def)
  have fin: "slice_to (apply_entry_filters (str_casefold E) (bracket_matches E) es inc exc) (max_items config) = es"
    if "list_all (accepted E inc exc) es \<and> int (length es) \<le> max_items config" for es
    using that by (simp add: apply_entry_filters_accepted slice_to_all)
  have fb: "list_all (accepted E inc exc) ces \<and> int (length ces) \<le> max_items config"
    if "extract_entries_from_link_collections E nodes config now inc exc = Inr ces" for ces
    using link_collections_loop_invariant
      [of E config now inc exc "link_pairs E nodes config" "{}" "[]" ces] that assms(8)
    by (simp add: extract_entries_from_link_collections_def)
  have res: "snd (extract_feed_entries E config now) =
         (if gate then
            (case extract_entries_from_link_collections E nodes config now inc exc of
               Inl e \<Rightarrow> Inl e
             | Inr container_entries \<Rightarrow>
                 if length container_entries > length entries then Inr container_entries
                 else if entries = [] then ?empty else Inr entries)
          else if entries = [] then ?empty else Inr entries)"
  proof (cases gate)
    case False
    have "snd (extract_feed_entries E config now) =
            (if entries = [] then ?empty
             else Inr (slice_to (apply_entry_filters (str_casefold E) (bracket_matches E) entries inc exc)
                         (max_items config)))"
      using extract_feed_entries_after_primary [OF assms(1-7)] su False by simp
    also have "\<dots> = (if entries = [] then ?empty else Inr entries)"
      using fin [OF prim] by simp
    finally show ?thesis using False by simp
  next
    case True
    show ?thesis
    proof (cases "extract_entries_from_link_collections E nodes config now inc exc")
      case (Inl e)
      have "snd (extract_feed_entries E config now) = Inl e"
        using extract_feed_entries_after_primary [OF assms(1-7)] su True Inl by simp
      then show ?thesis using True Inl by simp
    next
      case (Inr ces)
      define chosen where "chosen = (if length ces > length entries then ces else entries)"
      have ch: "list_all (accepted E inc exc) chosen \<and> int (length chosen) \<le> max_items config"
        using fb [OF Inr] prim by (simp add: chosen_def)
      have "snd (extract_feed_entries E config now) =
              (if chosen = [] then ?empty
               else Inr (slice_to (apply_entry_filters (str_casefold E) (bracket_matches E) chosen inc exc)
                           (max_items config)))"
        using extract_feed_entries_after_primary [OF assms(1-7)] su True Inr
        by (simp add: chosen_def)
      also have "\<dots> = (if chosen = [] then ?empty else Inr chosen)"
        using fin [OF ch] by simp
      also have "\<dots> = (if length ces > length entries then Inr ces
                        else if entries = [] then ?empty else Inr entries)"
        by (auto simp: chosen_def)
      finally show ?thesis using True Inr by simp
    qed
  qed
  have "length entries \<le> length result"
    if "snd (extract_feed_entries E config now) = Inr result" for result
    using that unfolding res by (auto split: if_splits sum.splits)
  with su res show ?thesis unfolding gate_def by blast
qed

theorem link_fallback_gate_and_count_witness:
  "bs4_installed demo_env
   \<and> fetch_html demo_env ''https://example.com/forum'' ''http'' = Inr ''<html>''
   \<and> select demo_env (parse_document demo_env ''<html>'') ''.group p'' = [6]
   \<and> parse_filter_rules (python_stack demo_env) [] = Inr []
   \<and> extract_entries_from_item_nodes demo_env [6] (demo_config\<lparr>item_selector := ''.group p''\<rparr>)
        5000 [] []
       = Inr [\<lparr>title = ''Alpha Topic'', link = ''https://example.com/forums/topic/alpha'',
                summary = [], published_at = 5000\<rparr>]
   \<and> should_use_container_link_fallback demo_env [6]
        [\<lparr>title = ''Alpha Topic'', link = ''https://example.com/forums/topic/alpha'',
          summary = [], published_at = 5000\<rparr>] (demo_config\<lparr>item_selector := ''.group p''\<rparr>)
   \<and> map title (projr (snd (extract_feed_entries demo_env
         (demo_config\<lparr>item_selector := ''.group p''\<rparr>) 5000)))
       = [''Alpha Topic'', ''Beta Topic'', ''Gamma Topic'']"
proof -
  let ?c = "demo_config\<lparr>item_selector := ''.group p''\<rparr>"
  let ?e = "\<lparr>title = ''Alpha Topic'', link = ''https://example.com/forums/topic/alpha'',
             summary = [], published_at = 5000\<rparr>"
  have h1: "bs4_installed demo_env" by code_simp
  have h2: "fetch_html demo_env (source_url ?c) (fetch_mode ?c) = Inr ''<html>''" by code_simp
  have h3: "select demo_env (parse_document demo_env ''<html>'') (item_selector ?c) = [6]"
    by code_simp
  have h4: "[6::nat] \<noteq> []" by simp
  have h5: "parse_filter_rules (python_stack demo_env) (filter_rules ?c) = Inr []" by code_simp
  have h6: "parse_filter_rules (python_stack demo_env) (exclude_filter_rules ?c) = Inr []" by code_simp
  have h7: "extract_entries_from_item_nodes demo_env [6] ?c 5000 [] [] = Inr [?e]" by code_simp
  have h8: "1 \<le> max_items ?c" by code_simp
  have v: "map title (projr (snd (extract_feed_entries demo_env ?c 5000)))
       = [''Alpha Topic'', ''Beta Topic'', ''Gamma Topic'']" by code_simp
  have p: "parse_filter_rules (python_stack demo_env) [] = Inr []" by code_simp
  have f: "fetch_html demo_env ''https://example.com/forum'' ''http'' = Inr ''<html>''"
    by code_simp
  have s: "select demo_env (parse_document demo_env ''<html>'') ''.group p'' = [6]" by code_simp
  have g: "length [?e] \<le> 1
     \<and> (\<exists>node \<in> set [6]. 1 < length (select_nodes_with_scope demo_env node (link_selector ?c)))"
    by code_simp
  from link_fallback_gate_and_count [OF h1 h2 h3 h4 h5 h6 h7 h8] g
  have "should_use_container_link_fallback demo_env [6] [?e] ?c" by blast
  with h1 f s p h7 v show ?thesis by simp
qed


lemma build_entry_off_host:
  assumes "get_href E link_node = Some href" and "href \<noteq> []"
    and "url_scheme E (urljoin E (source_url config) href) \<notin> {''http'', ''https''}
         \<or> url_netloc E (urljoin E (source_url config) href) \<noteq> url_netloc E (source_url config)"
  shows "build_entry_from_nodes E node (Some title_node) (Some link_node) title_text config now
           = Inl (ValueError (off_host_message E config href))"
  using assms
  by (auto simp: build_entry_from_nodes_def normalize_topic_link_def Let_def off_host_message_def)

lemma item_nodes_loop_append:
  assumes "item_nodes_loop E config now inc exc pre acc0 = Inr acc"
    and "int (length acc) < max_items config"
  shows "item_nodes_loop E config now inc exc (pre @ rest) acc0
           = item_nodes_loop E config now inc exc rest acc"
  using assms
  by (induction pre arbitrary: acc0) (auto split: sum.splits option.splits if_splits)

lemma link_collections_loop_append:
  assumes "link_collections_loop E config now inc exc pre seen0 acc0 = Inr acc"
    and "int (length acc) < max_items config"
  shows "\<exists>seen. link_collections_loop E config now inc exc (pre @ rest) seen0 acc0
           = link_collections_loop E config now inc exc rest seen acc"
  using assms
proof (induction pre arbitrary: acc0 seen0)
  case Nil
  then show ?case by auto
next
  case (Cons pair pre)
  obtain node link_node where pair: "pair = (node, link_node)" by (cases pair)
  let ?b = "build_entry_from_nodes E node
             (Some (resolve_repeated_link_title_node E link_node config)) (Some link_node)
             (extract_repeated_link_title_text E node link_node
                (resolve_repeated_link_title_node E link_node config) config)
             config now"
  show ?case
  proof (cases ?b)
    case (Inl e)
    with Cons.prems pair show ?thesis by simp
  next
    case (Inr r)
    show ?thesis
    proof (cases r)
      case None
      with Inr Cons.prems pair
      have "link_collections_loop E config now inc exc pre seen0 acc0 = Inr acc" by simp
      from Cons.IH [OF this Cons.prems(2)] Inr None pair show ?thesis by simp
    next
      case (Some entry)
      show ?thesis
      proof (cases "link entry \<notin> seen0 \<and> accepted E inc exc entry")
        case False
        with Inr Some Cons.prems pair
        have "link_collections_loop E config now inc exc pre seen0 acc0 = Inr acc"
          by (auto simp: accepted_def split: if_splits)
        from Cons.IH [OF this Cons.prems(2)] Inr Some pair False show ?thesis
          by (auto simp: accepted_def)
      next
        case True
        show ?thesis
        proof (cases "int (length (acc0 @ [entry])) \<ge> max_items config")
          case stop: True
          with Inr Some True Cons.prems pair have "acc = acc0 @ [entry]"
            by (auto simp: accepted_def split: if_splits)
          with stop Cons.prems(2) show ?thesis by simp
        next
          case go: False
          with Inr Some True Cons.prems pair
          have "link_collections_loop E config now inc exc pre (insert (link entry) seen0)
                  (acc0 @ [entry]) = Inr acc"
            by (auto simp: accepted_def split: if_splits)
          from Cons.IH [OF this Cons.prems(2)] Inr Some pair True go show ?thesis
            by (auto simp: accepted_def)
        qed
      qed
    qed
  qed
qed

text \<open>
  C2. A candidate is processed when the loop reaches it: the candidates before it raised
  nothing and left fewer than \<open>max_items\<close> accepted entries. If such a candidate has an
  href to resolve (in the primary pass its title node and its link node were found; in both
  passes the link node carries a non-empty href) and the href, joined to \<open>source_url\<close>,
  has a scheme other than http/https or a host other than the source's, then the whole
  extraction fails with the \<open>ValueError\<close> of \<open>normalize_topic_link\<close>: no entry list is
  returned, in the primary pass and in the link-expansion pass alike.
\<close>

theorem off_host_link_fails_extraction:
  assumes "bs4_installed E"
    and "fetch_html E (source_url config) (fetch_mode config) = Inr html"
    and "select E (parse_document E html) (item_selector config) = nodes"
    and "parse_filter_rules (python_stack E) (filter_rules config) = Inr inc"
    and "parse_filter_rules (python_stack E) (exclude_filter_rules config) = Inr exc"
    and "get_href E link_node = Some href" and "href \<noteq> []"
    and "url_scheme E (urljoin E (source_url config) href) \<notin> {''http'', ''https''}
         \<or> url_netloc E (urljoin E (source_url config) href) \<noteq> url_netloc E (source_url config)"
  shows "(nodes = pre @ node # post
          \<and> item_nodes_loop E config now inc exc pre [] = Inr acc
          \<and> int (length acc) < max_items config
          \<and> select_node_with_scope E node (title_selector config) = Some title_node
          \<and> select_node_with_scope E node (link_selector config) = Some link_node
          \<longrightarrow> snd (extract_feed_entries E config now)
                = Inl (ValueError (off_host_message E config href)))
     \<and> (extract_entries_from_item_nodes E nodes config now inc exc = Inr entries
          \<and> should_use_container_link_fallback E nodes entries config
          \<and> link_pairs E nodes config = pre' @ (node, link_node) # post'
          \<and> link_collections_loop E config now inc exc pre' {} [] = Inr acc'
          \<and> int (length acc') < max_items config
          \<longrightarrow> snd (extract_feed_entries E config now)
                = Inl (ValueError (off_host_message E config href)))"
proof (intro conjI impI)
  assume a: "nodes = pre @ node # post
          \<and> item_nodes_loop E config now inc exc pre [] = Inr acc
          \<and> int (length acc) < max_items config
          \<and> select_node_with_scope E node (title_selector config) = Some title_node
          \<and> select_node_with_scope E node (link_selector config) = Some link_node"
  then have "item_nodes_loop E config now inc exc nodes []
               = item_nodes_loop E config now inc exc (node # post) acc"
    using item_nodes_loop_append [of E config now inc exc pre "[]" acc "node # post"] by simp
  also have "\<dots> = Inl (ValueError (off_host_message E config href))"
    using a build_entry_off_host [OF assms(6-8), of node title_node None now] by simp
  finally have "extract_entries_from_item_nodes E nodes config now inc exc
                  = Inl (ValueError (off_host_message E config href))"
    by (simp add: extract_entries_from_item_nodes_def)
  moreover have "nodes \<noteq> []" using a by simp
  ultimately show "snd (extract_feed_entries E config now)
                = Inl (ValueError (off_host_message E config href))"
    using assms(1-5) by (simp add: extract_feed_entries_def Let_def)
next
  assume b: "extract_entries_from_item_nodes E nodes config now inc exc = Inr entries
          \<and> should_use_container_link_fallback E nodes entries config
          \<and> link_pairs E nodes config = pre' @ (node, link_node) # post'
          \<and> link_collections_loop E config now inc exc pre' {} [] = Inr acc'
          \<and> int (length acc') < max_items config"
  then obtain seen where "link_collections_loop E config now inc exc (link_pairs E nodes config) {} []
               = link_collections_loop E config now inc exc ((node, link_node) # post') seen acc'"
    using link_collections_loop_append
      [of E config now inc exc pre' "{}" "[]" acc' "(node, link_node) # post'"]
    by auto
  also have "\<dots> = Inl (ValueError (off_host_message E config href))"
    using build_entry_off_host [OF assms(6-8), of node
        "resolve_repeated_link_title_node E link_node config"
        "extract_repeated_link_title_text E node link_node
           (resolve_repeated_link_title_node E link_node config) config" now]
    by simp
  finally have "extract_entries_from_link_collections E nodes config now inc exc
                  = Inl (ValueError (off_host_message E config href))"
    by (simp add: extract_entries_from_link_collections_def)
  moreover have "nodes \<noteq> []" using b by (auto simp: link_pairs_def)
  ultimately show "snd (extract_feed_entries E config now)
                = Inl (ValueError (off_host_message E config href))"
    using assms(1-5) b by (simp add: extract_feed_entries_def Let_def)
qed


theorem off_host_link_fails_extraction_witness:
  "select demo_env (parse_document demo_env ''<html>'') ''.mixed'' = [1] @ 7 # []
   \<and> get_href demo_env 19 = Some ''https://evil.test/topic''
   \<and> select_node_with_scope demo_env 7 ''a'' = Some 19
   \<and> url_netloc demo_env (urljoin demo_env ''https://example.com/forum'' ''https://evil.test/topic'')
       \<noteq> url_netloc demo_env ''https://example.com/forum''
   \<and> snd (extract_feed_entries demo_env (demo_config\<lparr>item_selector := ''.mixed''\<rparr>) 5000)
       = Inl (ValueError ''Off-site topic links are blocked by default.'')
   \<and> link_pairs demo_env [8] (demo_config\<lparr>item_selector := ''.box''\<rparr>)
       = [(8, 20)] @ (8, 21) # []
   \<and> get_href demo_env 21 = Some ''https://evil.test/topic''
   \<and> snd (extract_feed_entries demo_env (demo_config\<lparr>item_selector := ''.box''\<rparr>) 5000)
       = Inl (ValueError ''Off-site topic links are blocked by default.'')"
proof -
  let ?m = "demo_config\<lparr>item_selector := ''.mixed''\<rparr>"
  let ?b = "demo_config\<lparr>item_selector := ''.box''\<rparr>"
  let ?href = "''https://evil.test/topic''"
  let ?e1 = "\<lparr>title = ''Package Alpha Premium'', link = ''https://example.com/forums/topic/1'',
              summary = [], published_at = 5000\<rparr>"
  let ?e2 = "\<lparr>title = ''Inside'', link = ''https://example.com/forums/topic/inside'',
              summary = [], published_at = 5000\<rparr>"
  have h1: "bs4_installed demo_env" by code_simp
  have m2: "fetch_html demo_env (source_url ?m) (fetch_mode ?m) = Inr ''<html>''" by code_simp
  have m3: "select demo_env (parse_document demo_env ''<html>'') (item_selector ?m) = [1, 7]"
    by code_simp
  have m4: "parse_filter_rules (python_stack demo_env) (filter_rules ?m) = Inr []" by code_simp
  have m5: "parse_filter_rules (python_stack demo_env) (exclude_filter_rules ?m) = Inr []" by code_simp
  have m6: "get_href demo_env 19 = Some ?href" by code_simp
  have ne: "?href \<noteq> []" by simp
  have m8: "url_scheme demo_env (urljoin demo_env (source_url ?m) ?href) \<notin> {''http'', ''https''}
         \<or> url_netloc demo_env (urljoin demo_env (source_url ?m) ?href)
             \<noteq> url_netloc demo_env (source_url ?m)" by code_simp
  have m9: "[1, 7] = [1] @ 7 # ([]::nat list)
          \<and> item_nodes_loop demo_env ?m 5000 [] [] [1] [] = Inr [?e1]
          \<and> int (length [?e1]) < max_items ?m
          \<and> select_node_with_scope demo_env 7 (title_selector ?m) = Some 19
          \<and> select_node_with_scope demo_env 7 (link_selector ?m) = Some 19" by code_simp
  have mm: "off_host_message demo_env ?m ?href = ''Off-site topic links are blocked by default.''"
    by code_simp
  have primary: "snd (extract_feed_entries demo_env ?m 5000)
       = Inl (ValueError ''Off-site topic links are blocked by default.'')"
    using off_host_link_fails_extraction [OF h1 m2 m3 m4 m5 m6 ne m8,
        where pre = "[1]" and node = 7 and post = "[]" and acc = "[?e1]" and title_node = 19
          and now = 5000] m9 mm
    by simp
  have b2: "fetch_html demo_env (source_url ?b) (fetch_mode ?b) = Inr ''<html>''" by code_simp
  have b3: "select demo_env (parse_document demo_env ''<html>'') (item_selector ?b) = [8]"
    by code_simp
  have b4: "parse_filter_rules (python_stack demo_env) (filter_rules ?b) = Inr []" by code_simp
  have b5: "parse_filter_rules (python_stack demo_env) (exclude_filter_rules ?b) = Inr []" by code_simp
  have b6: "get_href demo_env 21 = Some ?href" by code_simp
  have b8: "url_scheme demo_env (urljoin demo_env (source_url ?b) ?href) \<notin> {''http'', ''https''}
         \<or> url_netloc demo_env (urljoin demo_env (source_url ?b) ?href)
             \<noteq> url_netloc demo_env (source_url ?b)" by code_simp
  have b9: "extract_entries_from_item_nodes demo_env [8] ?b 5000 [] [] = Inr [?e2]
          \<and> should_use_container_link_fallback demo_env [8] [?e2] ?b
          \<and> link_pairs demo_env [8] ?b = [(8, 20)] @ (8, 21) # []
          \<and> link_collections_loop demo_env ?b 5000 [] [] [(8, 20)] {} [] = Inr [?e2]
          \<and> int (length [?e2]) < max_items ?b" by code_simp
  have bm: "off_host_message demo_env ?b ?href = ''Off-site topic links are blocked by default.''"
    by code_simp
  have fallback: "snd (extract_feed_entries demo_env ?b 5000)
       = Inl (ValueError ''Off-site topic links are blocked by default.'')"
    using off_host_link_fails_extraction [OF h1 b2 b3 b4 b5 b6 ne b8,
        where entries = "[?e2]" and pre' = "[(8, 20)]" and node = 8 and post' = "[]"
          and acc' = "[?e2]" and now = 5000] b9 bm
    by simp
  have s1: "select demo_env (parse_document demo_env ''<html>'') ''.mixed'' = [1] @ 7 # []"
    by code_simp
  have s2: "select_node_with_scope demo_env 7 ''a'' = Some 19" by code_simp
  have s3: "url_netloc demo_env (urljoin demo_env ''https://example.com/forum'' ?href)
       \<noteq> url_netloc demo_env ''https://example.com/forum''" by code_simp
  have s4: "link_pairs demo_env [8] ?b = [(8, 20)] @ (8, 21) # []" by code_simp
  show ?thesis
    using primary fallback s1 s2 s3 s4 m6 b6 by simp
qed

lemma link_collections_links_distinct:
  assumes "extract_entries_from_link_collections E nodes config now inc exc = Inr es"
    and "1 \<le> max_items config"
  shows "distinct (map link es)"
  using link_collections_loop_invariant
    [of E config now inc exc "link_pairs E nodes config" "{}" "[]" es] assms
  by (simp add: extract_entries_from_link_collections_def)

text \<open>
  C6, evaluated on the code: for two item nodes whose links resolve to the same address,
  the primary pass keeps both entries (the link-expansion pass is not used, two entries
  being more than one), and the extraction returns two entries with one link. Only the
  link-expansion pass keeps a set of seen links (\<open>link_collections_links_distinct\<close>).
\<close>

theorem primary_pass_repeats_links:
  "extract_feed_entries demo_env (demo_config\<lparr>item_selector := ''.dup''\<rparr>) 5000
     = ([Fetch ''https://example.com/forum'' ''http''],
        Inr [\<lparr>title = ''Same Topic'', link = ''https://example.com/forums/topic/same'',
               summary = [], published_at = 5000\<rparr>,
             \<lparr>title = ''Same Topic Again'', link = ''https://example.com/forums/topic/same'',
               summary = [], published_at = 5000\<rparr>])
   \<and> \<not> distinct (map link (projr (snd (extract_feed_entries demo_env
           (demo_config\<lparr>item_selector := ''.dup''\<rparr>) 5000))))"
  by code_simp

text \<open>
  C7, evaluated on the code: \<open>extract_feed_entries\<close> hands \<open>item_selector\<close> to the
  document's \<open>select\<close> as it is. With the selector \<open>self\<close>, which matches no element of
  the page, the extraction fails with "No topic nodes matched the item selector.", although
  \<open>select_nodes_with_scope\<close> on the document would return the document itself.
\<close>

theorem item_selector_self_matches_nothing:
  "extract_feed_entries demo_env (demo_config\<lparr>item_selector := ''self''\<rparr>) 5000
     = ([Fetch ''https://example.com/forum'' ''http''],
        Inl (ValueError ''No topic nodes matched the item selector.''))
   \<and> select_nodes_with_scope demo_env (parse_document demo_env ''<html>'') ''self''
       = [parse_document demo_env ''<html>'']
   \<and> select demo_env (parse_document demo_env ''<html>'') ''self'' = []"
  by code_simp


section \<open>Properties of the store and the scheduler\<close>

lemma truncate_profile_from_row [simp]: "profile_row.truncate (profile_from_row row n) = row"
  by (cases row) (simp add: profile_from_row_def profile_row.defs stored_profile.defs feed_request.defs)

lemma profile_from_row_fields [simp]:
  "feed_title (profile_from_row row n) = feed_title row"
  "source_url (profile_from_row row n) = source_url row"
  "item_selector (profile_from_row row n) = item_selector row"
  "title_selector (profile_from_row row n) = title_selector row"
  "link_selector (profile_from_row row n) = link_selector row"
  "summary_selector (profile_from_row row n) = summary_selector row"
  "max_items (profile_from_row row n) = max_items row"
  "refresh_interval_minutes (profile_from_row row n) = refresh_interval_minutes row"
  "fetch_mode (profile_from_row row n) = fetch_mode row"
  "filter_rules (profile_from_row row n) = filter_rules row"
  "exclude_filter_rules (profile_from_row row n) = exclude_filter_rules row"
  "id_col (profile_from_row row n) = id_col row"
  "feed_token (profile_from_row row n) = feed_token row"
  "active (profile_from_row row n) = active row"
  "last_status (profile_from_row row n) = last_status row"
  "last_error (profile_from_row row n) = last_error row"
  "last_refreshed_at (profile_from_row row n) = last_refreshed_at row"
  "refresh_anchor_at (profile_from_row row n) = refresh_anchor_at row"
  "created_at (profile_from_row row n) = created_at row"
  "updated_at (profile_from_row row n) = updated_at row"
  "item_count (profile_from_row row n) = n"
  by (cases row; simp add: profile_from_row_def profile_row.defs stored_profile.defs feed_request.defs)+

lemma to_feed_request_fields [simp]:
  "feed_title (to_feed_request p) = feed_title p"
  "source_url (to_feed_request p) = source_url p"
  "max_items (to_feed_request p) = max_items p"
  by (cases p; simp add: to_feed_request_def feed_request.defs)+

lemma get_profile_by_id_Some:
  "get_profile_by_id d pid = Some p \<Longrightarrow>
   \<exists>row. find (\<lambda>row. id_col row = pid) (profiles d) = Some row \<and> id_col row = pid
      \<and> p = profile_from_row row (length (filter (\<lambda>fi. item_profile_id fi = pid) (feed_items d)))"
  by (auto simp: get_profile_by_id_def find_Some_iff split: option.splits)

lemma find_map_update:
  assumes "\<And>row. id_col (f row) = id_col row"
  shows "find (\<lambda>row. id_col row = q) (map (\<lambda>row. if id_col row = pid then f row else row) rows)
         = (if q = pid then map_option f (find (\<lambda>row. id_col row = q) rows)
            else find (\<lambda>row. id_col row = q) rows)"
  using assms by (induction rows) auto

lemma get_profile_by_id_update:
  assumes "\<And>row. id_col (f row) = id_col row"
  shows "get_profile_by_id (update_profiles_where_id d pid f) q =
           (if q = pid
            then map_option (\<lambda>p. profile_from_row (f (profile_row.truncate p)) (item_count p))
                   (get_profile_by_id d q)
            else get_profile_by_id d q)"
  using assms
  by (auto simp: get_profile_by_id_def update_profiles_where_id_def find_map_update
      split: option.splits)

lemma feed_items_update [simp]: "feed_items (update_profiles_where_id d pid f) = feed_items d"
  by (simp add: update_profiles_where_id_def)


lemma should_refresh_iff:
  "should_refresh p now \<longleftrightarrow>
     active p \<and> refresh_interval_minutes p \<noteq> 0 \<and>
     (case last_refreshed_at p of
        Some a \<Rightarrow>
          (case refresh_anchor_at p of
             Some b \<Rightarrow> max a b + timedelta_minutes (refresh_interval_minutes p) \<le> now
           | None \<Rightarrow> a + timedelta_minutes (refresh_interval_minutes p) \<le> now)
      | None \<Rightarrow>
          (case refresh_anchor_at p of
             Some b \<Rightarrow> b + timedelta_minutes (refresh_interval_minutes p) \<le> now
           | None \<Rightarrow>
               (case created_at p of
                  Some c \<Rightarrow> c + timedelta_minutes (refresh_interval_minutes p) \<le> now
                | None \<Rightarrow> False)))"
  by (auto simp: should_refresh_def Let_def max_def split: option.splits)

lemma le_fold_max: "(s::nat) \<le> fold max xs s"
  by (induction xs arbitrary: s) (auto intro: order_trans [OF max.cobounded2])

lemma mem_le_fold_max: "(x::nat) \<in> set xs \<Longrightarrow> x \<le> fold max xs s"
proof (induction xs arbitrary: s)
  case Nil
  then show ?case by simp
next
  case (Cons a xs)
  show ?case
  proof (cases "x = a")
    case True
    have "a \<le> max a s" by simp
    also have "\<dots> \<le> fold max xs (max a s)" by (rule le_fold_max)
    finally show ?thesis using True by simp
  next
    case False
    with Cons show ?thesis by simp
  qed
qed

lemma find_fresh_id:
  assumes "id_col new = fold max (map id_col rows) s + 1"
  shows "find (\<lambda>row. id_col row = id_col new) (rows @ [new]) = Some new"
proof -
  have "\<forall>row \<in> set rows. id_col row \<noteq> id_col new"
  proof
    fix row assume "row \<in> set rows"
    then have "id_col row \<le> fold max (map id_col rows) s"
      by (intro mem_le_fold_max) simp
    with assms show "id_col row \<noteq> id_col new" by simp
  qed
  then show ?thesis by (induction rows) auto
qed

lemma create_profile_fresh:
  assumes "create_profile d token config created = Some (d', Inr fresh)"
  shows "active fresh \<and> last_status fresh = ''idle'' \<and> last_refreshed_at fresh = None
     \<and> refresh_anchor_at fresh = Some created \<and> created_at fresh = Some created
     \<and> refresh_interval_minutes fresh = refresh_interval_minutes config"
proof -
  let ?pid = "fold max (map id_col (profiles d)) (profile_seq d) + 1"
  let ?row = "feed_request.extend config
                (profile_row.fields ?pid token True ''idle'' [] None
                   (Some created) (Some created) (Some created))"
  have id: "id_col ?row = ?pid"
    by (cases config) (simp add: profile_row.defs feed_request.defs)
  have "find (\<lambda>row. id_col row = ?pid) (profiles d @ [?row]) = Some ?row"
    using find_fresh_id [of ?row "profiles d" "profile_seq d"] id by simp
  with assms have "fresh = profile_from_row ?row (item_count fresh)"
    by (auto simp: create_profile_def Let_def get_profile_by_id_def
        split: if_splits option.splits)
  then have f: "profile_row.truncate fresh = ?row"
    by (metis truncate_profile_from_row)
  have "active ?row \<and> last_status ?row = ''idle'' \<and> last_refreshed_at ?row = None
     \<and> refresh_anchor_at ?row = Some created \<and> created_at ?row = Some created
     \<and> refresh_interval_minutes ?row = refresh_interval_minutes config"
    by (cases config) (simp add: profile_row.defs feed_request.defs)
  moreover have "active (profile_row.truncate fresh) = active fresh"
    "last_status (profile_row.truncate fresh) = last_status fresh"
    "last_refreshed_at (profile_row.truncate fresh) = last_refreshed_at fresh"
    "refresh_anchor_at (profile_row.truncate fresh) = refresh_anchor_at fresh"
    "created_at (profile_row.truncate fresh) = created_at fresh"
    "refresh_interval_minutes (profile_row.truncate fresh) = refresh_interval_minutes fresh"
    by (cases fresh; simp add: profile_row.defs)+
  ultimately show ?thesis using f by simp
qed


lemma profile_from_row_update_disable:
  "profile_from_row
     ((profile_row.truncate p)\<lparr>active := False, last_status := ''disabled'', last_error := [],
        updated_at := Some now\<rparr>) (item_count p)
   = p\<lparr>active := False, last_status := ''disabled'', last_error := [], updated_at := Some now\<rparr>"
  by (cases p) (simp add: profile_from_row_def profile_row.defs stored_profile.defs)

lemma profile_from_row_update_enable:
  "profile_from_row
     ((profile_row.truncate p)\<lparr>active := True, last_status := ''idle'', last_error := [],
        refresh_anchor_at := Some now, updated_at := Some now\<rparr>) (item_count p)
   = p\<lparr>active := True, last_status := ''idle'', last_error := [],
       refresh_anchor_at := Some now, updated_at := Some now\<rparr>"
  by (cases p) (simp add: profile_from_row_def profile_row.defs stored_profile.defs)





text \<open>
  C4. For a profile whose \<open>refresh_interval_minutes\<close> is not negative (the range 0 to 1440
  that \<open>parse_refresh_interval\<close> admits), \<open>should_refresh\<close> is true exactly when the
  profile is active, the interval is positive and the current time has reached the base
  instant plus the interval, the base being the later of the non-empty values among
  \<open>last_refreshed_at\<close> and \<open>refresh_anchor_at\<close>, or \<open>created_at\<close> when both are empty.
  It is false whenever the interval is 0, false when all three timestamps are empty, and
  false for a freshly created profile at the instant of its creation and at every instant
  less than one interval later.
\<close>

theorem should_refresh_due:
  "(0 \<le> refresh_interval_minutes p \<longrightarrow>
      (should_refresh p now \<longleftrightarrow>
         active p \<and> 0 < refresh_interval_minutes p \<and>
         (case last_refreshed_at p of
            Some a \<Rightarrow>
              (case refresh_anchor_at p of
                 Some b \<Rightarrow> now \<ge> max a b + timedelta_minutes (refresh_interval_minutes p)
               | None \<Rightarrow> now \<ge> a + timedelta_minutes (refresh_interval_minutes p))
          | None \<Rightarrow>
              (case refresh_anchor_at p of
                 Some b \<Rightarrow> now \<ge> b + timedelta_minutes (refresh_interval_minutes p)
               | None \<Rightarrow>
                   (case created_at p of
                      Some c \<Rightarrow> now \<ge> c + timedelta_minutes (refresh_interval_minutes p)
                    | None \<Rightarrow> False)))))
   \<and> (refresh_interval_minutes p = 0 \<longrightarrow> \<not> should_refresh p now)
   \<and> (last_refreshed_at p = None \<and> refresh_anchor_at p = None \<and> created_at p = None
        \<longrightarrow> \<not> should_refresh p now)
   \<and> (create_profile d token config created = Some (d', Inr fresh)
        \<and> 0 \<le> refresh_interval_minutes config \<longrightarrow>
          \<not> should_refresh fresh created
          \<and> (\<forall>t. t < created + timedelta_minutes (refresh_interval_minutes config)
                 \<longrightarrow> \<not> should_refresh fresh t))"
proof (intro conjI impI)
  assume "0 \<le> refresh_interval_minutes p"
  then show "should_refresh p now \<longleftrightarrow>
         active p \<and> 0 < refresh_interval_minutes p \<and>
         (case last_refreshed_at p of
            Some a \<Rightarrow>
              (case refresh_anchor_at p of
                 Some b \<Rightarrow> now \<ge> max a b + timedelta_minutes (refresh_interval_minutes p)
               | None \<Rightarrow> now \<ge> a + timedelta_minutes (refresh_interval_minutes p))
          | None \<Rightarrow>
              (case refresh_anchor_at p of
                 Some b \<Rightarrow> now \<ge> b + timedelta_minutes (refresh_interval_minutes p)
               | None \<Rightarrow>
                   (case created_at p of
                      Some c \<Rightarrow> now \<ge> c + timedelta_minutes (refresh_interval_minutes p)
                    | None \<Rightarrow> False)))"
    unfolding should_refresh_iff by auto
next
  assume "refresh_interval_minutes p = 0"
  then show "\<not> should_refresh p now" by (simp add: should_refresh_iff)
next
  assume "last_refreshed_at p = None \<and> refresh_anchor_at p = None \<and> created_at p = None"
  then show "\<not> should_refresh p now" by (simp add: should_refresh_iff)
next
  assume a: "create_profile d token config created = Some (d', Inr fresh)
               \<and> 0 \<le> refresh_interval_minutes config"
  then have f: "last_refreshed_at fresh = None" "refresh_anchor_at fresh = Some created"
    "refresh_interval_minutes fresh = refresh_interval_minutes config"
    using create_profile_fresh [of d token config created d' fresh] by auto
  have td: "0 \<le> timedelta_minutes (refresh_interval_minutes config)"
    "refresh_interval_minutes config \<noteq> 0
       \<Longrightarrow> 0 < timedelta_minutes (refresh_interval_minutes config)"
    using a by (auto simp: timedelta_minutes_def)
  show "\<not> should_refresh fresh created"
    using f td by (auto simp: should_refresh_iff)
  show "\<forall>t. t < created + timedelta_minutes (refresh_interval_minutes config)
                 \<longrightarrow> \<not> should_refresh fresh t"
    using f by (auto simp: should_refresh_iff)
qed


theorem should_refresh_due_witness:
  "0 \<le> refresh_interval_minutes demo_profile
   \<and> should_refresh demo_profile 3600002000
   \<and> \<not> should_refresh demo_profile 3600001999
   \<and> refresh_interval_minutes (demo_profile\<lparr>refresh_interval_minutes := 0\<rparr>) = 0
   \<and> \<not> should_refresh (demo_profile\<lparr>refresh_interval_minutes := 0\<rparr>) 3600002000
   \<and> \<not> should_refresh
         (demo_profile\<lparr>last_refreshed_at := None, refresh_anchor_at := None,
            created_at := None\<rparr>) 3600002000
   \<and> (\<exists>d' fresh. create_profile init_db ''token-1'' demo_config 1000 = Some (d', Inr fresh)
          \<and> \<not> should_refresh fresh 1000 \<and> \<not> should_refresh fresh 3600000999)"
proof -
  have p: "0 \<le> refresh_interval_minutes demo_profile" "active demo_profile"
    "refresh_interval_minutes demo_profile = 60"
    "last_refreshed_at demo_profile = Some 2000" "refresh_anchor_at demo_profile = Some 2000"
    by code_simp+
  obtain d' fresh where c: "create_profile init_db ''token-1'' demo_config 1000 = Some (d', Inr fresh)"
    by (simp add: create_profile_def init_db_def Let_def get_profile_by_id_def
        profile_row.defs feed_request.defs demo_config_def)
  have i: "0 \<le> refresh_interval_minutes demo_config" by code_simp
  have t: "(3600000999::int) < 1000 + timedelta_minutes (refresh_interval_minutes demo_config)"
    by code_simp
  have a: "should_refresh demo_profile 3600002000"
    using should_refresh_due [where p = demo_profile and now = 3600002000] p
    by (simp add: timedelta_minutes_def)
  have b: "\<not> should_refresh demo_profile 3600001999"
    using should_refresh_due [where p = demo_profile and now = 3600001999] p
    by (simp add: timedelta_minutes_def)
  have z: "\<not> should_refresh (demo_profile\<lparr>refresh_interval_minutes := 0\<rparr>) 3600002000"
    using should_refresh_due [where p = "demo_profile\<lparr>refresh_interval_minutes := 0\<rparr>"
        and now = 3600002000]
    by simp
  have e: "\<not> should_refresh
         (demo_profile\<lparr>last_refreshed_at := None, refresh_anchor_at := None,
            created_at := None\<rparr>) 3600002000"
    using should_refresh_due [where p = "demo_profile\<lparr>last_refreshed_at := None,
        refresh_anchor_at := None, created_at := None\<rparr>" and now = 3600002000]
    by simp
  have f: "\<not> should_refresh fresh 1000 \<and> \<not> should_refresh fresh 3600000999"
    using should_refresh_due [where d = init_db and token = "''token-1''"
        and config = demo_config and created = 1000 and d' = d' and fresh = fresh] c i t
    by blast
  show ?thesis
    using p(1) a b z e f c by auto
qed


lemma should_refresh_inactive: "\<not> active p \<Longrightarrow> \<not> should_refresh p t"
  by (simp add: should_refresh_def)

text \<open>
  C9. For an existing profile, disabling sets \<open>active\<close> to false and the status to
  \<open>disabled\<close> and clears \<open>last_error\<close>; \<open>last_refreshed_at\<close>, \<open>refresh_anchor_at\<close> and
  \<open>created_at\<close> are what they were, as is every other column but the modification stamp
  \<open>updated_at\<close>, which every update of a profile writes, and the profile is then never due.
  Enabling sets \<open>active\<close> to true and the status to \<open>idle\<close>, clears \<open>last_error\<close> and
  sets \<open>refresh_anchor_at\<close> (and the modification stamp) to the current time. The enabled
  profile is due from the later of \<open>last_refreshed_at\<close> and the current time, plus the
  interval, unless the interval is 0. So with a non-negative interval it is not due
  immediately after enabling, nor at any instant before the current time plus the
  interval; and when \<open>last_refreshed_at\<close> is not later than the current time, it is due
  exactly from the current time plus the interval on.
\<close>

theorem set_profile_active_effect:
  assumes "get_profile_by_id d pid = Some p"
  shows "(\<exists>d' p'. set_profile_active d pid False now = (d', Inr p')
            \<and> p' = p\<lparr>active := False, last_status := ''disabled'', last_error := [],
                      updated_at := Some now\<rparr>
            \<and> get_profile_by_id d' pid = Some p'
            \<and> last_refreshed_at p' = last_refreshed_at p
            \<and> refresh_anchor_at p' = refresh_anchor_at p
            \<and> created_at p' = created_at p
            \<and> feed_items d' = feed_items d
            \<and> (\<forall>t. \<not> should_refresh p' t))
       \<and> (\<exists>d' p'. set_profile_active d pid True now = (d', Inr p')
            \<and> p' = p\<lparr>active := True, last_status := ''idle'', last_error := [],
                      refresh_anchor_at := Some now, updated_at := Some now\<rparr>
            \<and> get_profile_by_id d' pid = Some p'
            \<and> last_refreshed_at p' = last_refreshed_at p
            \<and> refresh_anchor_at p' = Some now
            \<and> created_at p' = created_at p
            \<and> feed_items d' = feed_items d
            \<and> (\<forall>t. should_refresh p' t \<longleftrightarrow>
                     refresh_interval_minutes p \<noteq> 0
                     \<and> (case last_refreshed_at p of None \<Rightarrow> now | Some a \<Rightarrow> max a now)
                         + timedelta_minutes (refresh_interval_minutes p) \<le> t)
            \<and> (0 \<le> refresh_interval_minutes p \<longrightarrow>
                  \<not> should_refresh p' now
                  \<and> (\<forall>t. t < now + timedelta_minutes (refresh_interval_minutes p)
                         \<longrightarrow> \<not> should_refresh p' t))
            \<and> (0 \<le> refresh_interval_minutes p
                  \<and> (\<forall>a. last_refreshed_at p = Some a \<longrightarrow> a \<le> now)
                  \<longrightarrow> (\<forall>t. should_refresh p' t \<longleftrightarrow>
                             0 < refresh_interval_minutes p
                             \<and> now + timedelta_minutes (refresh_interval_minutes p) \<le> t)))"
proof (intro conjI)
  let ?off = "\<lambda>row::profile_row. row\<lparr>active := False, last_status := ''disabled'',
                last_error := [], updated_at := Some now\<rparr>"
  let ?on = "\<lambda>row::profile_row. row\<lparr>active := True, last_status := ''idle'', last_error := [],
               refresh_anchor_at := Some now, updated_at := Some now\<rparr>"
  let ?poff = "p\<lparr>active := False, last_status := ''disabled'', last_error := [],
                 updated_at := Some now\<rparr>"
  let ?pon = "p\<lparr>active := True, last_status := ''idle'', last_error := [],
                refresh_anchor_at := Some now, updated_at := Some now\<rparr>"
  have ne: "get_profile_by_id d pid \<noteq> None" using assms by simp
  have off: "get_profile_by_id (update_profiles_where_id d pid ?off) pid = Some ?poff"
    using assms
    by (subst get_profile_by_id_update) (simp_all add: profile_from_row_update_disable)
  have on: "get_profile_by_id (update_profiles_where_id d pid ?on) pid = Some ?pon"
    using assms
    by (subst get_profile_by_id_update) (simp_all add: profile_from_row_update_enable)
  have r_off: "set_profile_active d pid False now
                 = (update_profiles_where_id d pid ?off, Inr ?poff)"
    using ne off by (simp add: set_profile_active_def)
  have r_on: "set_profile_active d pid True now
                 = (update_profiles_where_id d pid ?on, Inr ?pon)"
    using ne on by (simp add: set_profile_active_def)
  have never: "\<forall>t. \<not> should_refresh ?poff t"
    by (simp add: should_refresh_inactive)
  have td: "0 \<le> refresh_interval_minutes p
              \<Longrightarrow> 0 \<le> timedelta_minutes (refresh_interval_minutes p)"
    by (simp add: timedelta_minutes_def)
  have due: "should_refresh ?pon t \<longleftrightarrow>
               refresh_interval_minutes p \<noteq> 0
               \<and> (case last_refreshed_at p of None \<Rightarrow> now | Some a \<Rightarrow> max a now)
                   + timedelta_minutes (refresh_interval_minutes p) \<le> t" for t
    by (auto simp: should_refresh_iff split: option.splits)
  have soon: "\<not> should_refresh ?pon now
              \<and> (\<forall>t. t < now + timedelta_minutes (refresh_interval_minutes p)
                     \<longrightarrow> \<not> should_refresh ?pon t)"
    if "0 \<le> refresh_interval_minutes p"
  proof -
    have pos: "0 < timedelta_minutes (refresh_interval_minutes p)"
      if "refresh_interval_minutes p \<noteq> 0"
      using that \<open>0 \<le> refresh_interval_minutes p\<close> by (simp add: timedelta_minutes_def)
    show ?thesis
      unfolding due using pos by (auto simp: max_def split: option.splits)
  qed
  have exact: "\<forall>t. should_refresh ?pon t \<longleftrightarrow>
                 0 < refresh_interval_minutes p
                 \<and> now + timedelta_minutes (refresh_interval_minutes p) \<le> t"
    if "0 \<le> refresh_interval_minutes p \<and> (\<forall>a. last_refreshed_at p = Some a \<longrightarrow> a \<le> now)"
    unfolding due using that by (auto simp: max_def split: option.splits)
  show "\<exists>d' p'. set_profile_active d pid False now = (d', Inr p')
            \<and> p' = ?poff
            \<and> get_profile_by_id d' pid = Some p'
            \<and> last_refreshed_at p' = last_refreshed_at p
            \<and> refresh_anchor_at p' = refresh_anchor_at p
            \<and> created_at p' = created_at p
            \<and> feed_items d' = feed_items d
            \<and> (\<forall>t. \<not> should_refresh p' t)"
    using r_off off never
    by (intro exI [of _ "update_profiles_where_id d pid ?off"] exI [of _ ?poff]) simp
  show "\<exists>d' p'. set_profile_active d pid True now = (d', Inr p')
            \<and> p' = ?pon
            \<and> get_profile_by_id d' pid = Some p'
            \<and> last_refreshed_at p' = last_refreshed_at p
            \<and> refresh_anchor_at p' = Some now
            \<and> created_at p' = created_at p
            \<and> feed_items d' = feed_items d
            \<and> (\<forall>t. should_refresh p' t \<longleftrightarrow>
                     refresh_interval_minutes p \<noteq> 0
                     \<and> (case last_refreshed_at p of None \<Rightarrow> now | Some a \<Rightarrow> max a now)
                         + timedelta_minutes (refresh_interval_minutes p) \<le> t)
            \<and> (0 \<le> refresh_interval_minutes p \<longrightarrow>
                  \<not> should_refresh p' now
                  \<and> (\<forall>t. t < now + timedelta_minutes (refresh_interval_minutes p)
                         \<longrightarrow> \<not> should_refresh p' t))
            \<and> (0 \<le> refresh_interval_minutes p
                  \<and> (\<forall>a. last_refreshed_at p = Some a \<longrightarrow> a \<le> now)
                  \<longrightarrow> (\<forall>t. should_refresh p' t \<longleftrightarrow>
                             0 < refresh_interval_minutes p
                             \<and> now + timedelta_minutes (refresh_interval_minutes p) \<le> t))"
    using r_on on due soon exact
    by (intro exI [of _ "update_profiles_where_id d pid ?on"] exI [of _ ?pon]) simp
qed

theorem set_profile_active_effect_witness:
  "get_profile_by_id demo_db 1 = Some demo_profile
   \<and> 0 \<le> refresh_interval_minutes demo_profile
   \<and> last_refreshed_at demo_profile = Some 2000
   \<and> (\<exists>d'. set_profile_active demo_db 1 False 3000
              = (d', Inr (demo_profile\<lparr>active := False, last_status := ''disabled'',
                            last_error := [], updated_at := Some 3000\<rparr>)))
   \<and> (\<exists>d'. set_profile_active demo_db 1 True 3000
              = (d', Inr (demo_profile\<lparr>active := True, last_status := ''idle'',
                            last_error := [], refresh_anchor_at := Some 3000,
                            updated_at := Some 3000\<rparr>)))
   \<and> \<not> should_refresh
         (demo_profile\<lparr>active := True, last_status := ''idle'', last_error := [],
            refresh_anchor_at := Some 3000, updated_at := Some 3000\<rparr>) 3000
   \<and> should_refresh
         (demo_profile\<lparr>active := True, last_status := ''idle'', last_error := [],
            refresh_anchor_at := Some 3000, updated_at := Some 3000\<rparr>) 3600003000"
proof -
  have h: "get_profile_by_id demo_db 1 = Some demo_profile" by code_simp
  have i: "0 \<le> refresh_interval_minutes demo_profile"
    "refresh_interval_minutes demo_profile = 60"
    "last_refreshed_at demo_profile = Some 2000" by code_simp+
  show ?thesis
    using set_profile_active_effect [OF h, of 3000] h i
    by (auto simp: timedelta_minutes_def)
qed

lemma to_feed_request_update:
  "to_feed_request
     (p\<lparr>feed_title := feed_title config, source_url := source_url config,
        item_selector := item_selector config, title_selector := title_selector config,
        link_selector := link_selector config, summary_selector := summary_selector config,
        filter_rules := filter_rules config,
        exclude_filter_rules := exclude_filter_rules config,
        max_items := max_items config,
        refresh_interval_minutes := refresh_interval_minutes config,
        fetch_mode := fetch_mode config, last_status := st, last_error := er,
        updated_at := up\<rparr>) = config"
  by (cases p, cases config) (simp add: to_feed_request_def feed_request.defs)

lemma profile_from_row_update_config:
  "profile_from_row
     ((profile_row.truncate p)\<lparr>feed_title := a1, source_url := a2, item_selector := a3,
        title_selector := a4, link_selector := a5, summary_selector := a6,
        filter_rules := a7, exclude_filter_rules := a8, max_items := a9,
        refresh_interval_minutes := a10, fetch_mode := a11, last_status := st,
        last_error := er, updated_at := up\<rparr>) (item_count p)
   = p\<lparr>feed_title := a1, source_url := a2, item_selector := a3,
        title_selector := a4, link_selector := a5, summary_selector := a6,
        filter_rules := a7, exclude_filter_rules := a8, max_items := a9,
        refresh_interval_minutes := a10, fetch_mode := a11, last_status := st,
        last_error := er, updated_at := up\<rparr>"
  by (cases p) (simp add: profile_from_row_def profile_row.defs stored_profile.defs)

text \<open>
  C10. For an existing profile, \<open>update_profile\<close> succeeds and returns the stored profile
  whose configuration is the new one, whose status is \<open>idle\<close> and whose \<open>last_error\<close> is
  empty, while \<open>feed_token\<close>, \<open>active\<close>, \<open>last_refreshed_at\<close>, \<open>refresh_anchor_at\<close>,
  \<open>created_at\<close>, the key and the item count are those before; the stored feed items and
  all other profiles are unchanged. The one further column written is the modification
  stamp \<open>updated_at\<close>.
\<close>

theorem update_profile_frame:
  assumes "get_profile_by_id d pid = Some p"
  shows "\<exists>d' p'. update_profile d pid config now = (d', Inr p')
           \<and> get_profile_by_id d' pid = Some p'
           \<and> to_feed_request p' = config
           \<and> last_status p' = ''idle'' \<and> last_error p' = []
           \<and> feed_token p' = feed_token p \<and> active p' = active p
           \<and> last_refreshed_at p' = last_refreshed_at p
           \<and> refresh_anchor_at p' = refresh_anchor_at p
           \<and> created_at p' = created_at p
           \<and> id_col p' = id_col p \<and> item_count p' = item_count p
           \<and> updated_at p' = Some now
           \<and> feed_items d' = feed_items d
           \<and> (\<forall>q. q \<noteq> pid \<longrightarrow> get_profile_by_id d' q = get_profile_by_id d q)"
proof -
  let ?f = "\<lambda>row::profile_row. row\<lparr>feed_title := feed_title config,
              source_url := source_url config, item_selector := item_selector config,
              title_selector := title_selector config, link_selector := link_selector config,
              summary_selector := summary_selector config, filter_rules := filter_rules config,
              exclude_filter_rules := exclude_filter_rules config,
              max_items := max_items config,
              refresh_interval_minutes := refresh_interval_minutes config,
              fetch_mode := fetch_mode config, last_status := ''idle'', last_error := [],
              updated_at := Some now\<rparr>"
  let ?d' = "update_profiles_where_id d pid ?f"
  let ?p' = "p\<lparr>feed_title := feed_title config,
              source_url := source_url config, item_selector := item_selector config,
              title_selector := title_selector config, link_selector := link_selector config,
              summary_selector := summary_selector config, filter_rules := filter_rules config,
              exclude_filter_rules := exclude_filter_rules config,
              max_items := max_items config,
              refresh_interval_minutes := refresh_interval_minutes config,
              fetch_mode := fetch_mode config, last_status := ''idle'', last_error := [],
              updated_at := Some now\<rparr>"
  have g: "get_profile_by_id ?d' q =
             (if q = pid
              then map_option (\<lambda>p. profile_from_row (?f (profile_row.truncate p)) (item_count p))
                     (get_profile_by_id d q)
              else get_profile_by_id d q)" for q
    by (rule get_profile_by_id_update) simp
  have p': "get_profile_by_id ?d' pid = Some ?p'"
    using assms by (simp add: g profile_from_row_update_config)
  have u: "update_profile d pid config now = (?d', Inr ?p')"
    using assms p' by (simp add: update_profile_def)
  have c: "to_feed_request ?p' = config" by (rule to_feed_request_update)
  show ?thesis
    using u p' c g by (intro exI [of _ ?d'] exI [of _ ?p']) simp
qed

theorem update_profile_frame_witness:
  "get_profile_by_id demo_db 1 = Some demo_profile
   \<and> (\<exists>d' p'. update_profile demo_db 1 other_config 3000 = (d', Inr p')
         \<and> to_feed_request p' = other_config
         \<and> last_status p' = ''idle'' \<and> last_error p' = []
         \<and> feed_token p' = ''token-1'' \<and> active p'
         \<and> last_refreshed_at p' = Some 2000 \<and> refresh_anchor_at p' = Some 2000
         \<and> created_at p' = Some 1000
         \<and> feed_items d' = [demo_item])"
proof -
  have h: "get_profile_by_id demo_db 1 = Some demo_profile" by code_simp
  have i: "feed_token demo_profile = ''token-1''" "active demo_profile"
    "last_refreshed_at demo_profile = Some 2000" "refresh_anchor_at demo_profile = Some 2000"
    "created_at demo_profile = Some 1000" "feed_items demo_db = [demo_item]"
    by code_simp+
  show ?thesis
    using update_profile_frame [OF h, of other_config 3000] h i by auto
qed


end
